theory Spec2Isabelle
  imports Main "HOL-Library.Word"
begin

section \<open>PhyChat: the chat session manager of static/js/chat.js\<close>

text \<open>
  A shallow embedding of the class \<^verbatim>\<open>PhyChatApp\<close>: the conversation list, its persisted
  form under the local-storage key \<^verbatim>\<open>phychat-conversations\<close>, the message pipeline of
  \<^verbatim>\<open>sendMessage\<close> and the keyword resolver \<^verbatim>\<open>getAIResponse\<close>.
  Every method becomes a function on an explicit application state; the clock readings a
  method takes (\<^verbatim>\<open>Date.now()\<close>, \<^verbatim>\<open>new Date().toISOString()\<close>) and the
  outcome of the awaited resolver are arguments.
\<close>

subsection \<open>Strings\<close>

text \<open>
  A JavaScript string is a sequence of 16-bit code units: \<^verbatim>\<open>length\<close> counts them and
  \<^verbatim>\<open>substring\<close> cuts between them. \<open>js\<close> reads an ASCII literal as such a sequence.
\<close>

type_synonym jsstring = "16 word list"

definition js :: "string \<Rightarrow> jsstring" where
  "js s = map (\<lambda>c. of_nat (of_char c)) s"

text \<open>
  \<^verbatim>\<open>String.prototype.toLowerCase\<close> on the Basic Latin letters, where it adds 32 to the code
  unit of an upper-case letter. Code units outside Basic Latin are left as they are: the
  keywords of the resolver are Basic Latin, which is what the model is used for. (Of the
  characters outside Basic Latin, the platform lowers only U+0130 and U+212A to text with
  a Basic Latin letter, an i before a combining dot and a k; no keyword ends in i or
  holds a k, so these cannot complete a keyword.)
\<close>

definition toLowerCase_unit :: "16 word \<Rightarrow> 16 word" where
  "toLowerCase_unit c = (if 0x41 \<le> c \<and> c \<le> 0x5A then c + 0x20 else c)"

definition toLowerCase :: "jsstring \<Rightarrow> jsstring" where
  "toLowerCase s = map toLowerCase_unit s"

text \<open>
  \<^verbatim>\<open>String.prototype.trim\<close> strips the WhiteSpace and LineTerminator code points of
  ECMAScript from both ends.
\<close>

definition is_trim_space :: "16 word \<Rightarrow> bool" where
  "is_trim_space c \<longleftrightarrow>
     c \<in> set [0x9, 0xA, 0xB, 0xC, 0xD, 0x20, 0xA0, 0x1680, 0x2028, 0x2029, 0x202F, 0x205F,
               0x3000, 0xFEFF]
     \<or> (0x2000 \<le> c \<and> c \<le> 0x200A)"

definition trim :: "jsstring \<Rightarrow> jsstring" where
  "trim s = rev (dropWhile is_trim_space (rev (dropWhile is_trim_space s)))"

text \<open>\<^verbatim>\<open>s.includes(k)\<close>: \<open>k\<close> starts at some position of \<open>s\<close>.\<close>

fun startsWith :: "jsstring \<Rightarrow> jsstring \<Rightarrow> bool" where
  "startsWith s [] = True"
| "startsWith [] (k # ks) = False"
| "startsWith (c # cs) (k # ks) = (c = k \<and> startsWith cs ks)"

fun includes_js :: "jsstring \<Rightarrow> jsstring \<Rightarrow> bool" where
  "includes_js [] k = (k = [])"
| "includes_js (c # cs) k = (startsWith (c # cs) k \<or> includes_js cs k)"

text \<open>
  \<^verbatim>\<open>Date.now().toString()\<close>: the decimal digits of an integer number of milliseconds,
  with a minus sign for a reading before the epoch.
\<close>

definition digit_unit :: "nat \<Rightarrow> 16 word" where
  "digit_unit d = of_nat (48 + d)"

function digits :: "nat \<Rightarrow> jsstring" where
  "digits n = (if n < 10 then [digit_unit n] else digits (n div 10) @ [digit_unit (n mod 10)])"
  by pat_completeness auto
termination
  by (relation "measure (\<lambda>n. n)") auto

declare digits.simps [simp del]

definition toString :: "int \<Rightarrow> jsstring" where
  "toString i = (if i < 0 then 0x2D # digits (nat (- i)) else digits (nat i))"

text \<open>The number a string of decimal digits denotes, read from its last digit.\<close>

fun digits_value :: "jsstring \<Rightarrow> nat" where
  "digits_value [] = 0"
| "digits_value (c # cs) = (unat c - 48) + 10 * digits_value cs"

subsection \<open>The response table of getAIResponse\<close>

text \<open>
  The object literal \<^verbatim>\<open>responses\<close>, in the order of its keys, which is the order
  \<^verbatim>\<open>Object.entries\<close> lists them in. The texts are the template literals of the source,
  code unit by code unit (10 is the line feed, 96 the backtick).
\<close>
definition newton_response :: jsstring where
  "newton_response =
    js ''**Newton'' @ [39] @ js ''s Laws of Motion**'' @ [10, 10]
     @ js ''1. **First Law (Inertia):** An object at rest stays at rest, and an object in motion stays in motion with the same speed and direction, unless acted upon by an unbalanced force.''
     @ [10, 10]
     @ js ''2. **Second Law:** The acceleration of an object is directly proportional to the net force acting on it and inversely proportional to its mass.''
     @ [10] @ js ''   '' @ [96] @ js ''F = ma'' @ [96, 10, 10]
     @ js ''3. **Third Law:** For every action, there is an equal and opposite reaction.''
     @ [10, 10]
     @ js ''Would you like me to explain any of these laws in more detail or provide some practice problems?''"

definition quantum_response :: jsstring where
  "quantum_response =
    js ''**Quantum Mechanics** is a fundamental theory in physics that describes nature at the smallest scales of energy levels of atoms and subatomic particles.''
     @ [10, 10] @ js ''Key concepts include:'' @ [10]
     @ js ''- **Wave-Particle Duality:** Particles can exhibit wave-like behavior'' @ [10]
     @ js ''- **Heisenberg Uncertainty Principle:** '' @ [96, 916] @ js ''x '' @ [183] @ js '' ''
     @ [916] @ js ''p '' @ [8805] @ js '' '' @ [8463] @ js ''/2'' @ [96, 10] @ js ''- **Schr''
     @ [246] @ js ''dinger'' @ [39]
     @ js ''s Equation:** Describes how quantum states evolve over time'' @ [10]
     @ js ''- **Superposition:** Particles can exist in multiple states simultaneously'' @ [10, 10]
     @ js ''Would you like me to elaborate on any of these concepts?''"

definition thermodynamics_response :: jsstring where
  "thermodynamics_response =
    js ''**Thermodynamics** is the branch of physics that deals with heat, work, and temperature.''
     @ [10, 10] @ js ''**The Four Laws:**'' @ [10, 10]
     @ js ''0. **Zeroth Law:** If two systems are in thermal equilibrium with a third, they are in equilibrium with each other.''
     @ [10, 10] @ js ''1. **First Law:** Energy cannot be created or destroyed, only transformed.''
     @ [10] @ js ''   '' @ [96, 916] @ js ''U = Q - W'' @ [96, 10, 10]
     @ js ''2. **Second Law:** Entropy of an isolated system always increases.'' @ [10, 10]
     @ js ''3. **Third Law:** As temperature approaches absolute zero, entropy approaches a constant minimum.''
     @ [10, 10] @ js ''Need help with any specific thermodynamics problem?''"

definition electromagnetism_response :: jsstring where
  "electromagnetism_response =
    js ''**Electromagnetism** describes the interaction between electrically charged particles.''
     @ [10, 10] @ js ''**Maxwell'' @ [39] @ js ''s Equations** form the foundation:'' @ [10]
     @ js ''- **Gauss'' @ [39] @ js ''s Law:** '' @ [96, 8711, 183] @ js ''E = '' @ [961] @ js ''/''
     @ [949, 8320, 96, 10] @ js ''- **Gauss'' @ [39] @ js ''s Law for Magnetism:** ''
     @ [96, 8711, 183] @ js ''B = 0'' @ [96, 10] @ js ''- **Faraday'' @ [39] @ js ''s Law:** ''
     @ [96, 8711, 215] @ js ''E = -'' @ [8706] @ js ''B/'' @ [8706] @ js ''t'' @ [96, 10]
     @ js ''- **Amp'' @ [232] @ js ''re'' @ [39] @ js ''s Law:** '' @ [96, 8711, 215] @ js ''B = ''
     @ [956, 8320] @ js ''J + '' @ [956, 8320, 949, 8320, 8706] @ js ''E/'' @ [8706] @ js ''t''
     @ [96, 10, 10]
     @ js ''These equations describe how electric and magnetic fields are generated and interact!''"

definition relativity_response :: jsstring where
  "relativity_response =
    js ''**Einstein'' @ [39] @ js ''s Theory of Relativity**'' @ [10, 10]
     @ js ''**Special Relativity (1905):**'' @ [10]
     @ js ''- Speed of light is constant in all reference frames'' @ [10] @ js ''- Time dilation: ''
     @ [96] @ js ''t'' @ [39] @ js '' = t/'' @ [8730] @ js ''(1-v'' @ [178] @ js ''/c'' @ [178]
     @ js '')'' @ [96, 10] @ js ''- Length contraction: '' @ [96] @ js ''L'' @ [39] @ js '' = L''
     @ [8730] @ js ''(1-v'' @ [178] @ js ''/c'' @ [178] @ js '')'' @ [96, 10]
     @ js ''- Mass-energy equivalence: '' @ [96] @ js ''E = mc'' @ [178, 96, 10, 10]
     @ js ''**General Relativity (1915):**'' @ [10]
     @ js ''- Gravity is the curvature of spacetime caused by mass'' @ [10]
     @ js ''- Predicts black holes, gravitational waves, and time dilation near massive objects''
     @ [10, 10] @ js ''What aspect would you like to explore further?''"

definition default_response :: jsstring where
  "default_response =
    js ''That'' @ [39] @ js ''s a great physics question! Let me help you understand this concept.''
     @ [10, 10]
     @ js ''Physics is all about understanding the fundamental laws that govern our universe. Whether it''
     @ [39]
     @ js ''s the motion of planets, the behavior of atoms, or the nature of light, physics provides the framework.''
     @ [10, 10] @ js ''Could you provide more details about what specific aspect you'' @ [39]
     @ js ''d like to explore? I can help with:'' @ [10]
     @ js ''- **Classical Mechanics** (motion, forces, energy)'' @ [10]
     @ js ''- **Thermodynamics** (heat, entropy, temperature)'' @ [10]
     @ js ''- **Electromagnetism** (electricity, magnetism, light)'' @ [10]
     @ js ''- **Quantum Mechanics** (atomic and subatomic behavior)'' @ [10]
     @ js ''- **Relativity** (space, time, gravity)'' @ [10, 10]
     @ js ''Feel free to ask any physics question!''"

definition responses :: "(jsstring \<times> jsstring) list" where
  "responses =
    [(js ''newton'', newton_response),
     (js ''quantum'', quantum_response),
     (js ''thermodynamics'', thermodynamics_response),
     (js ''electromagnetism'', electromagnetism_response),
     (js ''relativity'', relativity_response),
     (js ''default'', default_response)]"

text \<open>
  The loop \<^verbatim>\<open>for (const [keyword, response] of Object.entries(responses))\<close>: it returns
  at the first keyword the lowered message includes.
\<close>

fun first_match :: "(jsstring \<times> jsstring) list \<Rightarrow> jsstring \<Rightarrow> jsstring option" where
  "first_match [] lowerMessage = None"
| "first_match ((keyword, response) # entries) lowerMessage =
     (if includes_js lowerMessage keyword then Some response else first_match entries lowerMessage)"

text \<open>
  The resolver after its delay (the delay only postpones the answer). When the loop
  returns nothing the method returns \<^verbatim>\<open>responses.default\<close>.
\<close>

definition getAIResponse :: "jsstring \<Rightarrow> jsstring" where
  "getAIResponse message =
     (let lowerMessage = toLowerCase message
      in case first_match responses lowerMessage of
           Some response \<Rightarrow> response
         | None \<Rightarrow> default_response)"

subsection \<open>Conversations and messages\<close>

text \<open>
  The objects the store holds. A message is written as
  \<^verbatim>\<open>{content, type, timestamp}\<close> and a conversation as
  \<^verbatim>\<open>{id, title, messages, createdAt}\<close>; every field is a string except
  \<^verbatim>\<open>messages\<close>.
\<close>

record message =
  content :: jsstring
  type :: jsstring
  timestamp :: jsstring

record conversation =
  id_c :: jsstring
  title :: jsstring
  messages :: "message list"
  createdAt :: jsstring

subsection \<open>JSON.stringify on a conversation list\<close>

text \<open>
  \<^verbatim>\<open>QuoteJSONString\<close> of ECMAScript: the two-character escapes, a
  \<^verbatim>\<open>\uXXXX\<close> escape (lower-case digits) for the other control characters and for a
  surrogate that is not half of a pair, and every other code unit as it is.
\<close>

definition is_lead_surrogate :: "16 word \<Rightarrow> bool" where
  "is_lead_surrogate c \<longleftrightarrow> 0xD800 \<le> c \<and> c \<le> 0xDBFF"

definition is_trail_surrogate :: "16 word \<Rightarrow> bool" where
  "is_trail_surrogate c \<longleftrightarrow> 0xDC00 \<le> c \<and> c \<le> 0xDFFF"

definition hex_digit :: "nat \<Rightarrow> 16 word" where
  "hex_digit n = (if n < 10 then of_nat (48 + n) else of_nat (87 + n))"

definition UnicodeEscape :: "16 word \<Rightarrow> jsstring" where
  "UnicodeEscape c =
     [0x5C, 0x75, hex_digit (unat c div 4096), hex_digit (unat c div 256 mod 16),
      hex_digit (unat c div 16 mod 16), hex_digit (unat c mod 16)]"

definition quote_unit :: "16 word \<Rightarrow> jsstring" where
  "quote_unit c =
     (if c = 0x08 then [0x5C, 0x62]
      else if c = 0x09 then [0x5C, 0x74]
      else if c = 0x0A then [0x5C, 0x6E]
      else if c = 0x0C then [0x5C, 0x66]
      else if c = 0x0D then [0x5C, 0x72]
      else if c = 0x22 then [0x5C, 0x22]
      else if c = 0x5C then [0x5C, 0x5C]
      else if c < 0x20 \<or> is_lead_surrogate c \<or> is_trail_surrogate c then UnicodeEscape c
      else [c])"

fun quote_units :: "jsstring \<Rightarrow> jsstring" where
  "quote_units [] = []"
| "quote_units [c] = quote_unit c"
| "quote_units (c # d # ds) =
     (if is_lead_surrogate c \<and> is_trail_surrogate d then c # d # quote_units ds
      else quote_unit c @ quote_units (d # ds))"

definition QuoteJSONString :: "jsstring \<Rightarrow> jsstring" where
  "QuoteJSONString s = 0x22 # quote_units s @ [0x22]"

text \<open>
  Objects and arrays are written without white space: the members, each
  \<^verbatim>\<open>"key":value\<close>, in the order the properties were created, separated by commas.
\<close>

fun join_comma :: "jsstring list \<Rightarrow> jsstring" where
  "join_comma [] = []"
| "join_comma [x] = x"
| "join_comma (x # y # ys) = x @ 0x2C # join_comma (y # ys)"

definition member :: "jsstring \<Rightarrow> jsstring \<Rightarrow> jsstring" where
  "member key text = QuoteJSONString key @ 0x3A # text"

definition SerializeJSONObject :: "jsstring list \<Rightarrow> jsstring" where
  "SerializeJSONObject members = 0x7B # join_comma members @ [0x7D]"

definition SerializeJSONArray :: "jsstring list \<Rightarrow> jsstring" where
  "SerializeJSONArray elements = 0x5B # join_comma elements @ [0x5D]"

definition stringify_message :: "message \<Rightarrow> jsstring" where
  "stringify_message m =
     SerializeJSONObject
       [member (js ''content'') (QuoteJSONString (content m)),
        member (js ''type'') (QuoteJSONString (type m)),
        member (js ''timestamp'') (QuoteJSONString (timestamp m))]"

definition stringify_conversation :: "conversation \<Rightarrow> jsstring" where
  "stringify_conversation c =
     SerializeJSONObject
       [member (js ''id'') (QuoteJSONString (id_c c)),
        member (js ''title'') (QuoteJSONString (title c)),
        member (js ''messages'') (SerializeJSONArray (map stringify_message (messages c))),
        member (js ''createdAt'') (QuoteJSONString (createdAt c))]"

definition JSON_stringify :: "conversation list \<Rightarrow> jsstring" where
  "JSON_stringify cs = SerializeJSONArray (map stringify_conversation cs)"

subsection \<open>JSON.parse\<close>

text \<open>
  The value a JSON text denotes. A number keeps its text (its value as a double is not
  needed: no field of the store is a number), and an object lists its members in the
  order of the text.
\<close>

datatype json =
    JNull
  | JBool bool
  | JNumber jsstring
  | JString jsstring
  | JArray "json list"
  | JObject "(jsstring \<times> json) list"

text \<open>White space between the tokens: space, tab, line feed, carriage return.\<close>

definition is_json_space :: "16 word \<Rightarrow> bool" where
  "is_json_space c \<longleftrightarrow> c = 0x20 \<or> c = 0x09 \<or> c = 0x0A \<or> c = 0x0D"

fun skip_space :: "jsstring \<Rightarrow> jsstring" where
  "skip_space [] = []"
| "skip_space (c # cs) = (if is_json_space c then skip_space cs else c # cs)"

text \<open>
  The characters of a string up to its closing quote: a code unit below 0x20 is refused,
  a backslash starts one of the escapes of the grammar, \<^verbatim>\<open>\uXXXX\<close> with digits of
  either case.
\<close>

definition hex_value :: "16 word \<Rightarrow> nat option" where
  "hex_value c =
     (if 0x30 \<le> c \<and> c \<le> 0x39 then Some (unat c - 48)
      else if 0x61 \<le> c \<and> c \<le> 0x66 then Some (unat c - 87)
      else if 0x41 \<le> c \<and> c \<le> 0x46 then Some (unat c - 55)
      else None)"

definition unescape :: "16 word \<Rightarrow> 16 word option" where
  "unescape e =
     (if e = 0x22 then Some 0x22
      else if e = 0x5C then Some 0x5C
      else if e = 0x2F then Some 0x2F
      else if e = 0x62 then Some 0x08
      else if e = 0x66 then Some 0x0C
      else if e = 0x6E then Some 0x0A
      else if e = 0x72 then Some 0x0D
      else if e = 0x74 then Some 0x09
      else None)"

definition hex4 :: "16 word \<Rightarrow> 16 word \<Rightarrow> 16 word \<Rightarrow> 16 word \<Rightarrow> 16 word option" where
  "hex4 h1 h2 h3 h4 =
     (case (hex_value h1, hex_value h2, hex_value h3, hex_value h4) of
        (Some a, Some b, Some c, Some d) \<Rightarrow> Some (of_nat (((a * 16 + b) * 16 + c) * 16 + d))
      | _ \<Rightarrow> None)"

definition cons_unit :: "16 word \<Rightarrow> (jsstring \<times> jsstring) option \<Rightarrow> (jsstring \<times> jsstring) option" where
  "cons_unit c res = (case res of None \<Rightarrow> None | Some (s, rest) \<Rightarrow> Some (c # s, rest))"

fun parse_chars :: "jsstring \<Rightarrow> (jsstring \<times> jsstring) option" where
  "parse_chars [] = None"
| "parse_chars (c # cs) =
     (if c = 0x22 then Some ([], cs)
      else if c = 0x5C then
        (case cs of
           [] \<Rightarrow> None
         | e # es \<Rightarrow>
             if e = 0x75 then
               (case es of
                  h1 # h2 # h3 # h4 # rest \<Rightarrow>
                    (case hex4 h1 h2 h3 h4 of
                       None \<Rightarrow> None
                     | Some u \<Rightarrow> cons_unit u (parse_chars rest))
                | _ \<Rightarrow> None)
             else
               (case unescape e of
                  None \<Rightarrow> None
                | Some u \<Rightarrow> cons_unit u (parse_chars es)))
      else if c < 0x20 then None
      else cons_unit c (parse_chars cs))"

text \<open>
  A number: an optional minus, an integer part without a leading zero, an optional
  fraction and an optional exponent, each with at least one digit.
\<close>

definition is_digit :: "16 word \<Rightarrow> bool" where
  "is_digit c \<longleftrightarrow> 0x30 \<le> c \<and> c \<le> 0x39"

definition parse_exponent :: "jsstring \<Rightarrow> jsstring \<Rightarrow> (jsstring \<times> jsstring) option" where
  "parse_exponent lexeme s =
     (case s of
        [] \<Rightarrow> Some (lexeme, s)
      | e # t \<Rightarrow>
          if e = 0x65 \<or> e = 0x45 then
            (let sign = (case t of [] \<Rightarrow> [] | g # u \<Rightarrow> if g = 0x2B \<or> g = 0x2D then [g] else []);
                 t' = drop (length sign) t;
                 ds = takeWhile is_digit t'
             in if ds = [] then None
                else Some (lexeme @ e # sign @ ds, dropWhile is_digit t'))
          else Some (lexeme, s))"

definition parse_fraction :: "jsstring \<Rightarrow> jsstring \<Rightarrow> (jsstring \<times> jsstring) option" where
  "parse_fraction lexeme s =
     (case s of
        [] \<Rightarrow> Some (lexeme, s)
      | p # t \<Rightarrow>
          if p = 0x2E then
            (let ds = takeWhile is_digit t
             in if ds = [] then None
                else parse_exponent (lexeme @ p # ds) (dropWhile is_digit t))
          else parse_exponent lexeme s)"

definition parse_number :: "jsstring \<Rightarrow> (jsstring \<times> jsstring) option" where
  "parse_number s =
     (let sign = (case s of [] \<Rightarrow> [] | g # u \<Rightarrow> if g = 0x2D then [g] else []);
          s1 = drop (length sign) s
      in case s1 of
           [] \<Rightarrow> None
         | d # ds \<Rightarrow>
             if d = 0x30 then parse_fraction (sign @ [d]) ds
             else if is_digit d then
               parse_fraction (sign @ d # takeWhile is_digit ds) (dropWhile is_digit ds)
             else None)"

text \<open>
  Values, the elements of an array after its bracket, the members of an object after its
  brace. A call hands back the value and the rest of the text. The comparisons of lengths
  say that a call has consumed input; with them the recursion is seen to end, and they
  hold of every result (\<open>parse_elements_unguarded\<close>, \<open>parse_members_unguarded\<close> below).
\<close>

lemma length_skip_space: "length (skip_space s) \<le> length s"
  by (induction s) auto

lemma skip_space_Cons_length: "skip_space s = d # ds \<Longrightarrow> length ds < length s"
  using length_skip_space [of s] by simp

function parse_value :: "jsstring \<Rightarrow> (json \<times> jsstring) option"
  and parse_elements :: "jsstring \<Rightarrow> (json list \<times> jsstring) option"
  and parse_members :: "jsstring \<Rightarrow> ((jsstring \<times> json) list \<times> jsstring) option"
where
  "parse_value [] = None"
| "parse_value (c # cs) =
     (if c = 0x22 then
        (case parse_chars cs of
           None \<Rightarrow> None
         | Some (str, rest) \<Rightarrow> Some (JString str, rest))
      else if c = 0x5B then
        (case skip_space cs of
           [] \<Rightarrow> None
         | d # ds \<Rightarrow>
             if d = 0x5D then Some (JArray [], ds)
             else
               (case parse_elements (d # ds) of
                  None \<Rightarrow> None
                | Some (vs, rest) \<Rightarrow> Some (JArray vs, rest)))
      else if c = 0x7B then
        (case skip_space cs of
           [] \<Rightarrow> None
         | d # ds \<Rightarrow>
             if d = 0x7D then Some (JObject [], ds)
             else
               (case parse_members (d # ds) of
                  None \<Rightarrow> None
                | Some (ms, rest) \<Rightarrow> Some (JObject ms, rest)))
      else if startsWith (c # cs) (js ''true'') then Some (JBool True, drop 4 (c # cs))
      else if startsWith (c # cs) (js ''false'') then Some (JBool False, drop 5 (c # cs))
      else if startsWith (c # cs) (js ''null'') then Some (JNull, drop 4 (c # cs))
      else
        (case parse_number (c # cs) of
           None \<Rightarrow> None
         | Some (lexeme, rest) \<Rightarrow> Some (JNumber lexeme, rest)))"
| "parse_elements s =
     (case parse_value s of
        None \<Rightarrow> None
      | Some (v, rest) \<Rightarrow>
          if length rest < length s then
            (case skip_space rest of
               [] \<Rightarrow> None
             | d # ds \<Rightarrow>
                 if d = 0x5D then Some ([v], ds)
                 else if d = 0x2C then
                   (case parse_elements (skip_space ds) of
                      None \<Rightarrow> None
                    | Some (vs, rest') \<Rightarrow> Some (v # vs, rest'))
                 else None)
          else None)"
| "parse_members [] = None"
| "parse_members (c # cs) =
     (if c = 0x22 then
        (case parse_chars cs of
           None \<Rightarrow> None
         | Some (key, rest) \<Rightarrow>
             (case skip_space rest of
                [] \<Rightarrow> None
              | d # ds \<Rightarrow>
                  if d = 0x3A \<and> length ds < length cs then
                    (case parse_value (skip_space ds) of
                       None \<Rightarrow> None
                     | Some (v, rest') \<Rightarrow>
                         if length rest' < length cs then
                           (case skip_space rest' of
                              [] \<Rightarrow> None
                            | e # es \<Rightarrow>
                                if e = 0x7D then Some ([(key, v)], es)
                                else if e = 0x2C then
                                  (case parse_members (skip_space es) of
                                     None \<Rightarrow> None
                                   | Some (ms, rest'') \<Rightarrow> Some ((key, v) # ms, rest''))
                                else None)
                         else None)
                  else None))
      else None)"
  by pat_completeness auto
termination
proof (relation "measure (\<lambda>x. case x of Inl s \<Rightarrow> 2 * length s
                                   | Inr (Inl s) \<Rightarrow> 2 * length s + 1
                                   | Inr (Inr s) \<Rightarrow> 2 * length s + 1)", goal_cases)
  case 1
  show ?case by simp
next
  case (2 c cs d ds)
  then show ?case using skip_space_Cons_length [of cs d ds] by simp
next
  case (3 c cs d ds)
  then show ?case using skip_space_Cons_length [of cs d ds] by simp
next
  case (4 s)
  show ?case by simp
next
  case (5 s x v rest d ds)
  then show ?case
    using skip_space_Cons_length [of rest d ds] length_skip_space [of ds] by simp
next
  case (6 c cs x key rest d ds)
  then show ?case using length_skip_space [of ds] by simp
next
  case (7 c cs x key rest d ds x2 v rest' e es)
  then show ?case
    using skip_space_Cons_length [of rest' e es] length_skip_space [of es] by simp
qed

text \<open>\<^verbatim>\<open>JSON.parse\<close>: one value between white space; \<open>None\<close> is the \<^verbatim>\<open>SyntaxError\<close>.\<close>

definition JSON_parse :: "jsstring \<Rightarrow> json option" where
  "JSON_parse s =
     (case parse_value (skip_space s) of
        None \<Rightarrow> None
      | Some (v, rest) \<Rightarrow> if skip_space rest = [] then Some v else None)"

text \<open>
  The value that the text of a conversation list denotes, and the way back from a value
  of exactly this form to the list: the objects \<^verbatim>\<open>JSON.parse\<close> builds from such a text
  are the objects of the store.
\<close>

definition json_of_message :: "message \<Rightarrow> json" where
  "json_of_message m =
     JObject [(js ''content'', JString (content m)), (js ''type'', JString (type m)),
              (js ''timestamp'', JString (timestamp m))]"

definition json_of_conversation :: "conversation \<Rightarrow> json" where
  "json_of_conversation c =
     JObject [(js ''id'', JString (id_c c)), (js ''title'', JString (title c)),
              (js ''messages'', JArray (map json_of_message (messages c))),
              (js ''createdAt'', JString (createdAt c))]"

definition json_of_conversations :: "conversation list \<Rightarrow> json" where
  "json_of_conversations cs = JArray (map json_of_conversation cs)"

definition the_string :: "json \<Rightarrow> jsstring option" where
  "the_string j = (case j of JString s \<Rightarrow> Some s | _ \<Rightarrow> None)"

definition message_of_json :: "json \<Rightarrow> message option" where
  "message_of_json j =
     (case j of
        JObject ms \<Rightarrow>
          if map fst ms = [js ''content'', js ''type'', js ''timestamp''] then
            (case map (\<lambda>kv. the_string (snd kv)) ms of
               [Some c, Some t, Some s] \<Rightarrow> Some \<lparr>content = c, type = t, timestamp = s\<rparr>
             | _ \<Rightarrow> None)
          else None
      | _ \<Rightarrow> None)"

definition the_messages :: "json \<Rightarrow> message list option" where
  "the_messages j = (case j of JArray vs \<Rightarrow> those (map message_of_json vs) | _ \<Rightarrow> None)"

definition conversation_of_json :: "json \<Rightarrow> conversation option" where
  "conversation_of_json j =
     (case j of
        JObject ms \<Rightarrow>
          if map fst ms = [js ''id'', js ''title'', js ''messages'', js ''createdAt''] then
            (case map snd ms of
               [i, t, m, c] \<Rightarrow>
                 (case (the_string i, the_string t, the_messages m, the_string c) of
                    (Some i', Some t', Some m', Some c') \<Rightarrow>
                      Some \<lparr>id_c = i', title = t', messages = m', createdAt = c'\<rparr>
                  | _ \<Rightarrow> None)
             | _ \<Rightarrow> None)
          else None
      | _ \<Rightarrow> None)"

definition conversations_of_json :: "json \<Rightarrow> conversation list option" where
  "conversations_of_json j =
     (case j of JArray vs \<Rightarrow> those (map conversation_of_json vs) | _ \<Rightarrow> None)"

subsection \<open>JSON.stringify on a parsed value\<close>

text \<open>
  \<^verbatim>\<open>JSON.stringify\<close> on any value that \<^verbatim>\<open>JSON.parse\<close> has built. A number is written
  by the text it was read from, which is the text \<^verbatim>\<open>JSON.stringify\<close> gives only for a
  number read in its shortest form: the statements about this function leave numbers
  out.
\<close>

fun stringify_value :: "json \<Rightarrow> jsstring" where
  "stringify_value JNull = js ''null''"
| "stringify_value (JBool b) = (if b then js ''true'' else js ''false'')"
| "stringify_value (JNumber n) = n"
| "stringify_value (JString s) = QuoteJSONString s"
| "stringify_value (JArray vs) = SerializeJSONArray (map stringify_value vs)"
| "stringify_value (JObject ms) =
     SerializeJSONObject (map (\<lambda>kv. member (fst kv) (stringify_value (snd kv))) ms)"

text \<open>
  An array index: the decimal text, with no leading zero, of a number below
  \<open>2\<^sup>3\<^sup>2 - 1\<close>. An object lists the properties with such names first, in the order of
  the numbers, whatever the order of the text was.
\<close>

definition is_array_index :: "jsstring \<Rightarrow> bool" where
  "is_array_index k \<longleftrightarrow>
     k \<noteq> [] \<and> list_all is_digit k \<and> (k = [0x30] \<or> hd k \<noteq> 0x30)
     \<and> digits_value (rev k) < 4294967295"

text \<open>
  The values on which the tree of the text is the object that \<^verbatim>\<open>JSON.parse\<close> builds,
  and \<open>stringify_value\<close> its \<^verbatim>\<open>JSON.stringify\<close>: no number, and in every object no name
  twice and no array index as a name.
\<close>

fun plain :: "json \<Rightarrow> bool" where
  "plain (JNumber n) = False"
| "plain (JArray vs) = list_all plain vs"
| "plain (JObject ms) =
     (distinct (map fst ms) \<and> \<not> list_ex is_array_index (map fst ms)
      \<and> list_all (\<lambda>kv. plain (snd kv)) ms)"
| "plain v = True"

subsection \<open>The application state\<close>

text \<open>
  The fields of \<^verbatim>\<open>PhyChatApp\<close> the conversation logic reads and writes, the item
  \<^verbatim>\<open>phychat-conversations\<close> of \<^verbatim>\<open>localStorage\<close> (\<open>None\<close> when it has never
  been set), the value of the input box, and the children of the element
  \<^verbatim>\<open>#chat-messages\<close>. A rendered message keeps its raw content, its type and its
  error flag; the HTML that \<^verbatim>\<open>formatMessage\<close> makes of the content, the clock label,
  the sidebar and the state of the send button are views of this state and are left out.
  The elements are taken to exist, as on the chat page. The typing indicator and the
  welcome screen are found by their id and their class in the whole document; the
  model takes the ones the application made to be the only ones (a message whose text
  is markup carrying that id or class would add others).
\<close>

datatype node = WelcomeScreen | TypingIndicator | MessageDiv jsstring jsstring bool

record app =
  conversations :: "conversation list"
  currentConversationId :: "jsstring option"
  isProcessing :: bool
  storage :: "jsstring option"
  chatInput :: jsstring
  chatMessages :: "node list"

text \<open>What a rejected promise or a throwing call carries.\<close>

datatype error = SyntaxError | TypeError | ResolverError

text \<open>
  \<^verbatim>\<open>localStorage.setItem\<close> is taken to store the text (a full storage, which makes it
  throw, is not modelled).
\<close>

definition saveConversations :: "app \<Rightarrow> app" where
  "saveConversations st = st\<lparr>storage := Some (JSON_stringify (conversations st))\<rparr>"

definition addMessage :: "jsstring \<Rightarrow> jsstring \<Rightarrow> bool \<Rightarrow> app \<Rightarrow> app" where
  "addMessage content' type' isError st =
     st\<lparr>chatMessages := remove1 WelcomeScreen (chatMessages st) @ [MessageDiv content' type' isError]\<rparr>"

definition showTypingIndicator :: "app \<Rightarrow> app" where
  "showTypingIndicator st = st\<lparr>chatMessages := chatMessages st @ [TypingIndicator]\<rparr>"

definition hideTypingIndicator :: "app \<Rightarrow> app" where
  "hideTypingIndicator st = st\<lparr>chatMessages := remove1 TypingIndicator (chatMessages st)\<rparr>"

definition showWelcomeScreen :: "app \<Rightarrow> app" where
  "showWelcomeScreen st = st\<lparr>chatMessages := [WelcomeScreen]\<rparr>"

text \<open>\<^verbatim>\<open>this.conversations.find(c => c.id === conversationId)\<close>\<close>

definition findById :: "jsstring \<Rightarrow> conversation list \<Rightarrow> conversation option" where
  "findById conversationId cs = find (\<lambda>c. id_c c = conversationId) cs"

definition loadConversation :: "jsstring \<Rightarrow> app \<Rightarrow> app" where
  "loadConversation conversationId st =
     (let st1 = st\<lparr>currentConversationId := Some conversationId\<rparr>
      in case findById conversationId (conversations st1) of
           None \<Rightarrow> st1
         | Some conversation \<Rightarrow>
             (let st2 = st1\<lparr>chatMessages := []\<rparr>
              in if length (messages conversation) = 0 then showWelcomeScreen st2
                 else foldl (\<lambda>s msg. addMessage (content msg) (type msg) False s) st2
                        (messages conversation)))"

text \<open>
  \<open>now\<close> is the reading of \<^verbatim>\<open>Date.now()\<close> and \<open>stamp\<close> the string
  \<^verbatim>\<open>new Date().toISOString()\<close> at the call.
\<close>

definition createNewConversation :: "int \<Rightarrow> jsstring \<Rightarrow> app \<Rightarrow> app" where
  "createNewConversation now stamp st =
     (let conversation =
            \<lparr>id_c = toString now, title = js ''New Conversation'', messages = [],
             createdAt = stamp\<rparr>;
          st1 = st\<lparr>conversations := conversation # conversations st\<rparr>;
          st2 = saveConversations st1
      in loadConversation (id_c conversation) st2)"

text \<open>
  The body of the \<^verbatim>\<open>if (conversation)\<close> of \<^verbatim>\<open>saveMessageToConversation\<close>, on
  the conversation found: the push, then the title from the first user message.
\<close>

definition push_message :: "jsstring \<Rightarrow> jsstring \<Rightarrow> jsstring \<Rightarrow> conversation \<Rightarrow> conversation" where
  "push_message content' type' stamp conversation =
     (let c1 = conversation\<lparr>messages :=
                 messages conversation @ [\<lparr>content = content', type = type', timestamp = stamp\<rparr>]\<rparr>
      in if type' = js ''user''
            \<and> length (filter (\<lambda>m. type m = js ''user'') (messages c1)) = 1
         then c1\<lparr>title := take 30 content' @ (if length content' > 30 then js ''...'' else [])\<rparr>
         else c1)"

text \<open>
  \<^verbatim>\<open>find\<close> hands out the first object with the id and the method changes that object in
  place: in the list, the first element with the id is replaced.
\<close>

fun update_first :: "('a \<Rightarrow> bool) \<Rightarrow> ('a \<Rightarrow> 'a) \<Rightarrow> 'a list \<Rightarrow> 'a list" where
  "update_first P f [] = []"
| "update_first P f (x # xs) = (if P x then f x # xs else x # update_first P f xs)"

definition saveMessageToConversation :: "jsstring \<Rightarrow> jsstring \<Rightarrow> jsstring \<Rightarrow> app \<Rightarrow> app" where
  "saveMessageToConversation content' type' stamp st =
     (case currentConversationId st of
        None \<Rightarrow> st
      | Some current \<Rightarrow>
          (case findById current (conversations st) of
             None \<Rightarrow> st
           | Some conversation \<Rightarrow>
               saveConversations
                 (st\<lparr>conversations :=
                     update_first (\<lambda>c. id_c c = current) (push_message content' type' stamp)
                       (conversations st)\<rparr>)))"

definition deleteConversation :: "jsstring \<Rightarrow> int \<Rightarrow> jsstring \<Rightarrow> app \<Rightarrow> app" where
  "deleteConversation conversationId now stamp st =
     (let st1 = st\<lparr>conversations := filter (\<lambda>c. id_c c \<noteq> conversationId) (conversations st)\<rparr>;
          st2 = saveConversations st1
      in if currentConversationId st2 = Some conversationId then
           (case conversations st2 of
              first # rest \<Rightarrow> loadConversation (id_c first) st2
            | [] \<Rightarrow> createNewConversation now stamp st2)
         else st2)"

subsection \<open>loadConversations and init\<close>

text \<open>
  \<^verbatim>\<open>renderConversationList\<close>, which the load calls on whatever it has parsed: it maps
  over the value, reads \<^verbatim>\<open>id\<close> and \<^verbatim>\<open>title\<close> of each element and writes them into a
  template. That raises a \<^verbatim>\<open>TypeError\<close> when the value is not an array (it has no
  \<^verbatim>\<open>map\<close>), when an element is \<^verbatim>\<open>null\<close>, and when an \<^verbatim>\<open>id\<close> or a
  \<^verbatim>\<open>title\<close> cannot be turned into a string: an object with a property
  \<^verbatim>\<open>toString\<close> of its own (no parsed value can be called), or an array that holds one.
  A property read yields the last member of that name, and nothing on a value that is
  not an object.
\<close>

definition property :: "jsstring \<Rightarrow> json \<Rightarrow> json option" where
  "property k j = (case j of JObject ms \<Rightarrow> map_of (rev ms) k | _ \<Rightarrow> None)"

fun unprintable :: "json \<Rightarrow> bool" where
  "unprintable (JObject ms) = (js ''toString'' \<in> set (map fst ms))"
| "unprintable (JArray vs) = (\<exists>v \<in> set vs. unprintable v)"
| "unprintable v = False"

definition raises_on_element :: "json \<Rightarrow> bool" where
  "raises_on_element conv \<longleftrightarrow>
     conv = JNull
     \<or> (case property (js ''id'') conv of Some w \<Rightarrow> unprintable w | None \<Rightarrow> False)
     \<or> (case property (js ''title'') conv of Some w \<Rightarrow> unprintable w | None \<Rightarrow> False)"

definition renderConversationList_raises :: "json \<Rightarrow> bool" where
  "renderConversationList_raises j =
     (case j of JArray vs \<Rightarrow> list_ex raises_on_element vs | _ \<Rightarrow> True)"

text \<open>
  \<^verbatim>\<open>saved ? JSON.parse(saved) : []\<close>: the absent item and the empty string are falsy.
  The method has no \<^verbatim>\<open>try\<close>, so what \<^verbatim>\<open>JSON.parse\<close> or the rendering throws
  leaves the method (\<open>Threw\<close>). The state of this model holds lists of conversation
  objects as the application writes them (the four fields in their order, the messages
  with their three), on which the rendering goes through. Any other value that the
  method parses, stores and renders is handed out as \<open>Foreign\<close>: the method has
  returned, with that value in \<^verbatim>\<open>this.conversations\<close>, and what the other methods
  do with it is not modelled.
\<close>

datatype load_result = Threw error | Stored app | Foreign json

definition loadConversations :: "app \<Rightarrow> load_result" where
  "loadConversations st =
     (case storage st of
        None \<Rightarrow> Stored (st\<lparr>conversations := []\<rparr>)
      | Some saved \<Rightarrow>
          if saved = [] then Stored (st\<lparr>conversations := []\<rparr>)
          else
            (case JSON_parse saved of
               None \<Rightarrow> Threw SyntaxError
             | Some j \<Rightarrow>
                 (case conversations_of_json j of
                    Some cs \<Rightarrow> Stored (st\<lparr>conversations := cs\<rparr>)
                  | None \<Rightarrow>
                      if renderConversationList_raises j then Threw TypeError
                      else Foreign j)))"

text \<open>
  \<^verbatim>\<open>init\<close>, as far as the conversations go: the load, then a new conversation when the
  list is empty and the first conversation otherwise. On a \<open>Foreign\<close> value the model
  stops.
\<close>

definition init :: "int \<Rightarrow> jsstring \<Rightarrow> app \<Rightarrow> load_result" where
  "init now stamp st =
     (case loadConversations st of
        Stored st1 \<Rightarrow>
          (case conversations st1 of
             [] \<Rightarrow> Stored (createNewConversation now stamp st1)
           | first # rest \<Rightarrow> Stored (loadConversation (id_c first) st1))
      | failed \<Rightarrow> failed)"

subsection \<open>sendMessage\<close>

text \<open>
  The method runs to its \<^verbatim>\<open>await\<close>, and resumes when the resolver has settled; other
  handlers may run in between. \<open>sendMessage_begin\<close> is the first half: \<open>None\<close> when the
  method returns at its guard, otherwise the message and the state at the
  \<^verbatim>\<open>await\<close>. \<open>sendMessage_resume\<close> is the second half, on the state it finds, given how
  the resolver settled. \<open>stamp\<close> is the clock string of the message that is stored.
\<close>

definition sendMessage_begin :: "jsstring \<Rightarrow> app \<Rightarrow> (jsstring \<times> app) option" where
  "sendMessage_begin stamp st =
     (let message = trim (chatInput st)
      in if message = [] \<or> isProcessing st then None
         else
           (let st1 = st\<lparr>chatInput := []\<rparr>;
                st2 = addMessage message (js ''user'') False st1;
                st3 = saveMessageToConversation message (js ''user'') stamp st2;
                st4 = showTypingIndicator st3
            in Some (message, st4\<lparr>isProcessing := True\<rparr>)))"

definition sendMessage_resume :: "error + jsstring \<Rightarrow> jsstring \<Rightarrow> app \<Rightarrow> app" where
  "sendMessage_resume settled stamp st =
     (let st1 =
            (case settled of
               Inr response \<Rightarrow>
                 saveMessageToConversation response (js ''assistant'') stamp
                   (addMessage response (js ''assistant'') False (hideTypingIndicator st))
             | Inl e \<Rightarrow>
                 addMessage (js ''Sorry, I encountered an error. Please try again.'')
                   (js ''assistant'') True (hideTypingIndicator st))
      in st1\<lparr>isProcessing := False\<rparr>)"

text \<open>A submission with nothing in between, against a resolver that may reject.\<close>

definition sendMessage :: "(jsstring \<Rightarrow> error + jsstring) \<Rightarrow> jsstring \<Rightarrow> jsstring \<Rightarrow> app \<Rightarrow> app" where
  "sendMessage resolver stamp1 stamp2 st =
     (case sendMessage_begin stamp1 st of
        None \<Rightarrow> st
      | Some (message, st1) \<Rightarrow> sendMessage_resume (resolver message) stamp2 st1)"

subsection \<open>Sequences of calls\<close>

text \<open>
  Runs of the methods, for the statements about every sequence of calls: a run of
  \<^verbatim>\<open>createNewConversation\<close>, each call with its clock readings; a run of
  \<^verbatim>\<open>saveMessageToConversation\<close>; a run of submissions, each one the text typed into
  the input box, the resolver that answers it and the clock strings of the two messages.
\<close>

definition creates :: "(int \<times> jsstring) list \<Rightarrow> app \<Rightarrow> app" where
  "creates ticks st = foldl (\<lambda>s (now, stamp). createNewConversation now stamp s) st ticks"

definition appends :: "(jsstring \<times> jsstring \<times> jsstring) list \<Rightarrow> app \<Rightarrow> app" where
  "appends later st = foldl (\<lambda>s (content', type', stamp). saveMessageToConversation content' type' stamp s) st later"

definition submit :: "jsstring \<times> (jsstring \<Rightarrow> error + jsstring) \<times> jsstring \<times> jsstring \<Rightarrow> app \<Rightarrow> app" where
  "submit x st = (case x of (text, resolver, stamp1, stamp2) \<Rightarrow>
     sendMessage resolver stamp1 stamp2 (st\<lparr>chatInput := text\<rparr>))"

definition submissions :: "(jsstring \<times> (jsstring \<Rightarrow> error + jsstring) \<times> jsstring \<times> jsstring) list \<Rightarrow> app \<Rightarrow> app" where
  "submissions xs st = foldl (\<lambda>s x. submit x s) st xs"

text \<open>A conversation holds a message of type \<^verbatim>\<open>user\<close>.\<close>

definition has_user :: "conversation \<Rightarrow> bool" where
  "has_user c \<longleftrightarrow> (\<exists>m \<in> set (messages c). type m = js ''user'')"

text \<open>
  The persisted item, read back: the message records in a parsed item (the elements of
  the \<^verbatim>\<open>messages\<close> of each of its elements), the names of the fields of a record, the
  message records that a state has persisted, the names of their fields, and the
  conversation list that the item denotes when it is one of the form the application
  writes.
\<close>

definition field_names :: "json \<Rightarrow> jsstring list" where
  "field_names j = (case j of JObject ms \<Rightarrow> map fst ms | _ \<Rightarrow> [])"

definition elements :: "json \<Rightarrow> json list" where
  "elements j = (case j of JArray vs \<Rightarrow> vs | _ \<Rightarrow> [])"

definition persisted_messages :: "json \<Rightarrow> json list" where
  "persisted_messages j =
     concat (map (\<lambda>c. case property (js ''messages'') c of
                          Some m \<Rightarrow> elements m | None \<Rightarrow> []) (elements j))"

definition persisted_records :: "app \<Rightarrow> json list option" where
  "persisted_records st =
     (case storage st of
        None \<Rightarrow> None
      | Some saved \<Rightarrow>
          (case JSON_parse saved of
             None \<Rightarrow> None
           | Some j \<Rightarrow> Some (persisted_messages j)))"

definition persisted_fields :: "app \<Rightarrow> jsstring list list option" where
  "persisted_fields st = map_option (map field_names) (persisted_records st)"


text \<open>
  The page. The constructor runs on a document newly loaded, with the item of
  \<^verbatim>\<open>localStorage\<close> as it finds it, and calls \<^verbatim>\<open>init\<close>, which replaces whatever the
  served page holds in \<^verbatim>\<open>#chat-messages\<close>; the input box starts empty. Then the
  handlers run, one event after the other: the button for a new chat, a click on a
  conversation of the sidebar, a click on its delete button, a text typed and sent
  (\<^verbatim>\<open>sendMessage\<close> up to its \<^verbatim>\<open>await\<close>), the resolver settling (the rest of
  \<^verbatim>\<open>sendMessage\<close>), and the page loaded anew, which keeps the item and nothing else.
  An id clicked is any string and the resolver may settle at any moment, also with no
  question pending: the runs of the page are among these runs.
\<close>

definition PhyChatApp :: "jsstring option \<Rightarrow> int \<Rightarrow> jsstring \<Rightarrow> load_result" where
  "PhyChatApp item now stamp =
     init now stamp
       \<lparr>conversations = [], currentConversationId = None, isProcessing = False,
        storage = item, chatInput = [], chatMessages = []\<rparr>"

datatype event =
    NewChat int jsstring
  | Open jsstring
  | Remove jsstring int jsstring
  | Ask jsstring jsstring
  | Answer "error + jsstring" jsstring
  | Reload int jsstring

fun step :: "event \<Rightarrow> app \<Rightarrow> load_result" where
  "step (NewChat now stamp) st = Stored (createNewConversation now stamp st)"
| "step (Open conversationId) st = Stored (loadConversation conversationId st)"
| "step (Remove conversationId now stamp) st =
     Stored (deleteConversation conversationId now stamp st)"
| "step (Ask input stamp) st =
     (case sendMessage_begin stamp (st\<lparr>chatInput := input\<rparr>) of
        None \<Rightarrow> Stored (st\<lparr>chatInput := input\<rparr>)
      | Some (message, st1) \<Rightarrow> Stored st1)"
| "step (Answer settled stamp) st = Stored (sendMessage_resume settled stamp st)"
| "step (Reload now stamp) st = PhyChatApp (storage st) now stamp"

fun run :: "event list \<Rightarrow> load_result \<Rightarrow> load_result" where
  "run [] r = r"
| "run (e # es) r = (case r of Stored st \<Rightarrow> run es (step e st) | failed \<Rightarrow> failed)"

text \<open>Every message of the store is of type \<^verbatim>\<open>user\<close> or \<^verbatim>\<open>assistant\<close>.\<close>

definition user_or_assistant :: "app \<Rightarrow> bool" where
  "user_or_assistant st \<longleftrightarrow>
     list_all (\<lambda>c. list_all (\<lambda>m. type m = js ''user'' \<or> type m = js ''assistant'') (messages c))
       (conversations st)"

text \<open>
  A text prints a value: it parses to the value before any rest, and starts with
  no white space.
\<close>

definition prints :: "jsstring \<Rightarrow> json \<Rightarrow> bool" where
  "prints vt v \<longleftrightarrow>
     (\<forall>rest. parse_value (vt @ rest) = Some (v, rest)) \<and> (\<exists>c t. vt = c # t \<and> \<not> is_json_space c)"

text \<open>
  A state of the page at rest, with its store persisted, and a conversation as
  \<^verbatim>\<open>createNewConversation\<close> makes it, for the concrete instances below.
\<close>

definition store_of :: "conversation list \<Rightarrow> jsstring option \<Rightarrow> app" where
  "store_of cs current =
     \<lparr>conversations = cs, currentConversationId = current, isProcessing = False,
      storage = Some (JSON_stringify cs), chatInput = [], chatMessages = [WelcomeScreen]\<rparr>"

definition example_conversation :: conversation where
  "example_conversation =
     \<lparr>id_c = js ''1700000000000'', title = js ''New Conversation'', messages = [],
      createdAt = js ''2023-11-14T22:13:20.000Z''\<rparr>"

text \<open>
  A conversation whose one message is of type \<^verbatim>\<open>system\<close>; the value of an item whose
  message record names its second field \<^verbatim>\<open>role\<close>; and the value of an item whose
  conversation has its title before its id.
\<close>

definition annotated :: conversation where
  "annotated =
     \<lparr>id_c = js ''1700000000000'', title = js ''Inertia'',
      messages = [\<lparr>content = js ''Be brief.'', type = js ''system'',
                   timestamp = js ''2023-11-14T22:13:21.000Z''\<rparr>],
      createdAt = js ''2023-11-14T22:13:20.000Z''\<rparr>"

definition with_role :: json where
  "with_role =
     JArray [JObject [(js ''id'', JString (js ''1700000000000'')),
                      (js ''title'', JString (js ''Inertia'')),
                      (js ''messages'',
                       JArray [JObject [(js ''content'', JString (js ''What is inertia?'')),
                                        (js ''role'', JString (js ''user'')),
                                        (js ''timestamp'', JString (js ''2023-11-14T22:13:21.000Z''))]]),
                      (js ''createdAt'', JString (js ''2023-11-14T22:13:20.000Z''))]]"


text \<open>The example state after one question that the resolver answers.\<close>

definition asked :: app where
  "asked = submit (js ''Explain thermodynamics'', \<lambda>m. Inr (getAIResponse m),
                   js ''2023-11-14T22:13:21.000Z'', js ''2023-11-14T22:13:23.000Z'')
             (store_of [example_conversation] (Some (js ''1700000000000'')))"

section \<open>Properties\<close>

subsection \<open>Strings\<close>

lemma startsWith_iff: "startsWith s k \<longleftrightarrow> (\<exists>q. s = k @ q)"
  by (induction s k rule: startsWith.induct) auto

lemma includes_js_iff: "includes_js s k \<longleftrightarrow> (\<exists>p q. s = p @ k @ q)"
proof (induction s)
  case Nil
  show ?case by auto
next
  case (Cons c cs)
  show ?case
  proof
    assume "includes_js (c # cs) k"
    then consider "startsWith (c # cs) k" | "includes_js cs k" by auto
    then show "\<exists>p q. c # cs = p @ k @ q"
    proof cases
      case 1
      then obtain q where "c # cs = k @ q" using startsWith_iff by blast
      then have "c # cs = [] @ k @ q" by simp
      then show ?thesis by blast
    next
      case 2
      then obtain p q where "cs = p @ k @ q" using Cons.IH by blast
      then have "c # cs = (c # p) @ k @ q" by simp
      then show ?thesis by blast
    qed
  next
    assume "\<exists>p q. c # cs = p @ k @ q"
    then obtain p q where pq: "c # cs = p @ k @ q" by blast
    show "includes_js (c # cs) k"
    proof (cases p)
      case Nil
      with pq have "startsWith (c # cs) k" using startsWith_iff by auto
      then show ?thesis by simp
    next
      case (Cons a p')
      with pq have "cs = p' @ k @ q" by simp
      then have "includes_js cs k" using Cons.IH by blast
      then show ?thesis by simp
    qed
  qed
qed

lemma unat_digit_unit: "d < 10 \<Longrightarrow> unat (digit_unit d) = 48 + d"
  by (simp only: digit_unit_def unat_of_nat) simp

lemma rev_digits_value: "digits_value (rev (digits n)) = n"
proof (induction n rule: digits.induct)
  case (1 n)
  show ?case
  proof (cases "n < 10")
    case True
    then show ?thesis by (simp add: digits.simps [of n] unat_digit_unit)
  next
    case False
    then have "digits_value (rev (digits n)) = n mod 10 + 10 * digits_value (rev (digits (n div 10)))"
      by (simp add: digits.simps [of n] unat_digit_unit)
    with False 1 show ?thesis by simp
  qed
qed

lemma digits_inj: "digits n = digits m \<Longrightarrow> n = m"
  by (metis rev_digits_value)

lemma digits_not_minus: "c \<in> set (digits n) \<Longrightarrow> c \<noteq> 0x2D"
proof (induction n rule: digits.induct)
  case (1 n)
  have d: "\<And>d. d < 10 \<Longrightarrow> digit_unit d \<noteq> 0x2D"
  proof
    fix d :: nat assume "d < 10" "digit_unit d = 0x2D"
    then have "unat (digit_unit d) = 45" by simp
    with \<open>d < 10\<close> show False by (simp add: unat_digit_unit)
  qed
  show ?case
  proof (cases "n < 10")
    case True
    with 1(2) d show ?thesis by (simp add: digits.simps [of n])
  next
    case False
    with 1 d show ?thesis by (auto simp: digits.simps [of n])
  qed
qed

lemma digits_nonempty: "digits n \<noteq> []"
  by (subst digits.simps) simp

lemma toString_inj: "toString i = toString j \<Longrightarrow> i = j"
proof -
  assume eq: "toString i = toString j"
  have hd: "\<And>n. hd (digits n) \<noteq> 0x2D"
    using digits_not_minus digits_nonempty by (metis hd_in_set)
  have ne: "\<And>n m. 0x2D # digits n \<noteq> digits m"
    using hd by (metis list.sel(1))
  show "i = j"
  proof (cases "i < 0")
    case True
    show ?thesis
    proof (cases "j < 0")
      case True
      with \<open>i < 0\<close> eq have "digits (nat (- i)) = digits (nat (- j))" by (simp add: toString_def)
      then have "nat (- i) = nat (- j)" by (rule digits_inj)
      with True \<open>i < 0\<close> show ?thesis by simp
    next
      case False
      with \<open>i < 0\<close> eq ne show ?thesis by (simp add: toString_def)
    qed
  next
    case False
    show ?thesis
    proof (cases "j < 0")
      case True
      with False eq ne [of "nat (- j)" "nat i"] show ?thesis by (simp add: toString_def)
    next
      case jn: False
      with False eq have "digits (nat i) = digits (nat j)" by (simp add: toString_def)
      then have "nat i = nat j" by (rule digits_inj)
      with False jn show ?thesis by simp
    qed
  qed
qed

subsection \<open>Appending to a conversation\<close>

lemma findById_None_iff: "findById cid cs = None \<longleftrightarrow> cid \<notin> id_c ` set cs"
  by (auto simp: findById_def find_None_iff)

lemma findById_Nil [simp]: "findById cid [] = None"
  by (simp add: findById_def)

lemma findById_Cons:
  "findById cid (c # cs) = (if id_c c = cid then Some c else findById cid cs)"
  by (simp add: findById_def)

lemma id_c_push_message [simp]: "id_c (push_message content' type' stamp c) = id_c c"
  by (simp add: push_message_def Let_def)

lemma findById_update_first:
  "findById cid cs = Some c \<Longrightarrow> (\<And>x. id_c (f x) = id_c x) \<Longrightarrow>
   findById cid (update_first (\<lambda>c. id_c c = cid) f cs) = Some (f c)"
  by (induction cs) (auto simp: findById_Cons split: if_splits)

lemma saveMessageToConversation_found:
  assumes "currentConversationId st = Some cid" and "findById cid (conversations st) = Some c"
  shows "findById cid (conversations (saveMessageToConversation content' type' stamp st))
           = Some (push_message content' type' stamp c)"
    and "currentConversationId (saveMessageToConversation content' type' stamp st) = Some cid"
  using assms
  by (simp_all add: saveMessageToConversation_def saveConversations_def findById_update_first)

lemma title_push_first_user:
  "\<forall>m \<in> set (messages c). type m \<noteq> js ''user'' \<Longrightarrow>
   title (push_message txt (js ''user'') stamp c)
     = take 30 txt @ (if length txt > 30 then js ''...'' else [])"
proof -
  assume "\<forall>m \<in> set (messages c). type m \<noteq> js ''user''"
  then have "filter (\<lambda>m. type m = js ''user'') (messages c) = []"
    by (simp add: filter_empty_conv)
  then show ?thesis by (simp add: push_message_def Let_def)
qed

lemma has_user_push: "has_user c \<Longrightarrow> has_user (push_message content' type' stamp c)"
  by (auto simp: has_user_def push_message_def Let_def)

lemma has_user_push_user: "has_user (push_message content' (js ''user'') stamp c)"
  by (auto simp: has_user_def push_message_def Let_def)

lemma title_push_later:
  assumes "has_user c"
  shows "title (push_message content' type' stamp c) = title c"
proof -
  from assms obtain m where m: "m \<in> set (messages c)" "type m = js ''user''"
    by (auto simp: has_user_def)
  then have "filter (\<lambda>m. type m = js ''user'') (messages c) \<noteq> []"
    by (auto simp: filter_empty_conv)
  then show ?thesis by (simp add: push_message_def Let_def)
qed

lemma appends_Nil [simp]: "appends [] st = st" by (simp add: appends_def)

lemma appends_Cons [simp]:
  "appends ((content', type', stamp) # later) st = appends later (saveMessageToConversation content' type' stamp st)"
  by (simp add: appends_def)

lemma title_appends:
  "currentConversationId st = Some cid \<Longrightarrow> findById cid (conversations st) = Some c \<Longrightarrow>
   has_user c \<Longrightarrow>
   \<exists>c'. findById cid (conversations (appends later st)) = Some c' \<and> title c' = title c"
proof (induction later arbitrary: st c)
  case Nil
  then show ?case by simp
next
  case (Cons a later)
  obtain content' type' stamp where a: "a = (content', type', stamp)" by (cases a)
  let ?st = "saveMessageToConversation content' type' stamp st"
  let ?c = "push_message content' type' stamp c"
  have "currentConversationId ?st = Some cid" "findById cid (conversations ?st) = Some ?c"
    using Cons.prems saveMessageToConversation_found by simp_all
  moreover have "has_user ?c" using Cons.prems has_user_push by simp
  ultimately obtain c' where "findById cid (conversations (appends later ?st)) = Some c'"
    "title c' = title ?c" using Cons.IH by blast
  then show ?case using a Cons.prems title_push_later by simp
qed

text \<open>
  Claim C5. When the active conversation holds no message of type \<^verbatim>\<open>user\<close> yet,
  appending \<open>txt\<close> as a user message sets its title to the first 30 code units of
  \<open>txt\<close>, followed by \<^verbatim>\<open>...\<close> exactly when \<open>txt\<close> is longer than 30; and after any
  further run of appends, of any contents and types, the title is still that one.
\<close>

theorem title_from_first_user_message:
  assumes "currentConversationId st = Some cid"
    and "findById cid (conversations st) = Some c"
    and "\<forall>m \<in> set (messages c). type m \<noteq> js ''user''"
  shows "\<exists>c'. findById cid (conversations (saveMessageToConversation txt (js ''user'') stamp st)) = Some c'
           \<and> title c' = take 30 txt @ (if length txt > 30 then js ''...'' else [])
           \<and> (\<forall>later. \<exists>c''. findById cid
                  (conversations (appends later (saveMessageToConversation txt (js ''user'') stamp st))) = Some c''
                \<and> title c'' = title c')"
proof -
  let ?st = "saveMessageToConversation txt (js ''user'') stamp st"
  let ?c = "push_message txt (js ''user'') stamp c"
  have f: "findById cid (conversations ?st) = Some ?c" and cur: "currentConversationId ?st = Some cid"
    using assms saveMessageToConversation_found by simp_all
  have t: "title ?c = take 30 txt @ (if length txt > 30 then js ''...'' else [])"
    using assms(3) by (rule title_push_first_user)
  have "\<forall>later. \<exists>c''. findById cid (conversations (appends later ?st)) = Some c'' \<and> title c'' = title ?c"
    using title_appends [OF cur f has_user_push_user] by blast
  with f t show ?thesis by blast
qed

theorem title_from_first_user_message_witness:
  "currentConversationId (store_of [example_conversation] (Some (js ''1700000000000'')))
      = Some (js ''1700000000000'')
   \<and> findById (js ''1700000000000'')
        (conversations (store_of [example_conversation] (Some (js ''1700000000000''))))
      = Some example_conversation
   \<and> messages example_conversation = []
   \<and> (\<exists>c'. findById (js ''1700000000000'')
          (conversations (saveMessageToConversation (js ''What is Einstein's theory of relativity?'')
             (js ''user'') (js ''2023-11-14T22:13:21.000Z'')
             (store_of [example_conversation] (Some (js ''1700000000000''))))) = Some c'
        \<and> title c' = js ''What is Einstein's theory of r...'')"
proof -
  have a: "currentConversationId (store_of [example_conversation] (Some (js ''1700000000000'')))
      = Some (js ''1700000000000'')"
    by (simp add: store_of_def)
  have b: "findById (js ''1700000000000'')
        (conversations (store_of [example_conversation] (Some (js ''1700000000000''))))
      = Some example_conversation"
    by (simp add: store_of_def findById_def example_conversation_def)
  have c: "\<forall>m \<in> set (messages example_conversation). type m \<noteq> js ''user''"
    by (simp add: example_conversation_def)
  have t: "take 30 (js ''What is Einstein's theory of relativity?'')
        @ (if length (js ''What is Einstein's theory of relativity?'') > 30 then js ''...'' else [])
      = js ''What is Einstein's theory of r...''"
    by (simp add: js_def)
  have d: "messages example_conversation = []"
    by (simp add: example_conversation_def)
  show ?thesis
    using a b d
      title_from_first_user_message [OF a b c, of "js ''What is Einstein's theory of relativity?''"
        "js ''2023-11-14T22:13:21.000Z''"]
    by (simp only: t) blast
qed

subsection \<open>Submissions\<close>

text \<open>Rendering and switching leave the conversation list and the persisted item alone.\<close>

lemma store_addMessage [simp]:
  "conversations (addMessage c t e st) = conversations st"
  "storage (addMessage c t e st) = storage st"
  "currentConversationId (addMessage c t e st) = currentConversationId st"
  "isProcessing (addMessage c t e st) = isProcessing st"
  by (simp_all add: addMessage_def)

lemma store_hideTypingIndicator [simp]:
  "conversations (hideTypingIndicator st) = conversations st"
  "storage (hideTypingIndicator st) = storage st"
  "currentConversationId (hideTypingIndicator st) = currentConversationId st"
  by (simp_all add: hideTypingIndicator_def)

lemma store_showTypingIndicator [simp]:
  "conversations (showTypingIndicator st) = conversations st"
  "storage (showTypingIndicator st) = storage st"
  "currentConversationId (showTypingIndicator st) = currentConversationId st"
  by (simp_all add: showTypingIndicator_def)

lemma store_render_messages [simp]:
  "conversations (foldl (\<lambda>s msg. addMessage (content msg) (type msg) False s) st ms) = conversations st"
  "storage (foldl (\<lambda>s msg. addMessage (content msg) (type msg) False s) st ms) = storage st"
  "currentConversationId (foldl (\<lambda>s msg. addMessage (content msg) (type msg) False s) st ms) = currentConversationId st"
  "isProcessing (foldl (\<lambda>s msg. addMessage (content msg) (type msg) False s) st ms) = isProcessing st"
  by (induction ms arbitrary: st) simp_all

lemma store_loadConversation [simp]:
  "conversations (loadConversation cid st) = conversations st"
  "storage (loadConversation cid st) = storage st"
  "currentConversationId (loadConversation cid st) = Some cid"
  "isProcessing (loadConversation cid st) = isProcessing st"
  by (simp_all add: loadConversation_def Let_def showWelcomeScreen_def split: option.split)

lemma saveMessageToConversation_absent:
  "currentConversationId st = Some cid \<Longrightarrow> cid \<notin> id_c ` set (conversations st) \<Longrightarrow>
   saveMessageToConversation content' type' stamp st = st"
  using findById_None_iff [of cid "conversations st"]
  by (simp add: saveMessageToConversation_def)

text \<open>
  Claim C7. While the active id is the id of no conversation in the store,
  \<^verbatim>\<open>saveMessageToConversation\<close> is a no-op: the conversation list, every conversation
  in it and the persisted item are what they were (the whole state is).
\<close>

theorem append_missing_id_noop:
  "currentConversationId st = Some cid \<Longrightarrow> cid \<notin> id_c ` set (conversations st) \<Longrightarrow>
   saveMessageToConversation content' type' stamp st = st"
  by (rule saveMessageToConversation_absent)

theorem append_missing_id_noop_witness:
  "currentConversationId (store_of [example_conversation] (Some (js ''1600000000000'')))
      = Some (js ''1600000000000'')
   \<and> js ''1600000000000''
        \<notin> id_c ` set (conversations (store_of [example_conversation] (Some (js ''1600000000000''))))
   \<and> saveMessageToConversation (js ''What is inertia?'') (js ''user'')
         (js ''2023-11-14T22:13:21.000Z'')
         (store_of [example_conversation] (Some (js ''1600000000000'')))
       = store_of [example_conversation] (Some (js ''1600000000000''))"
proof -
  have a: "currentConversationId (store_of [example_conversation] (Some (js ''1600000000000'')))
      = Some (js ''1600000000000'')"
    by (simp add: store_of_def)
  have b: "js ''1600000000000''
        \<notin> id_c ` set (conversations (store_of [example_conversation] (Some (js ''1600000000000''))))"
    by (simp add: store_of_def example_conversation_def js_def)
  show ?thesis using a b append_missing_id_noop [OF a b] by simp
qed

lemma saveMessageToConversation_fields [simp]:
  "currentConversationId (saveMessageToConversation c t s st) = currentConversationId st"
  "isProcessing (saveMessageToConversation c t s st) = isProcessing st"
  "chatMessages (saveMessageToConversation c t s st) = chatMessages st"
  "chatInput (saveMessageToConversation c t s st) = chatInput st"
  by (simp_all add: saveMessageToConversation_def saveConversations_def split: option.split)


lemma sendMessage_resume_rejected:
  "conversations (sendMessage_resume (Inl e) stamp st) = conversations st"
  "storage (sendMessage_resume (Inl e) stamp st) = storage st"
  "currentConversationId (sendMessage_resume (Inl e) stamp st) = currentConversationId st"
  "isProcessing (sendMessage_resume (Inl e) stamp st) = False"
  "chatMessages (sendMessage_resume (Inl e) stamp st) =
     remove1 WelcomeScreen (remove1 TypingIndicator (chatMessages st))
       @ [MessageDiv (js ''Sorry, I encountered an error. Please try again.'') (js ''assistant'') True]"
  by (simp_all add: sendMessage_resume_def addMessage_def hideTypingIndicator_def)


lemma submit_absent:
  assumes "currentConversationId s = Some cid" and "cid \<notin> id_c ` set (conversations s)"
  shows "conversations (submit x s) = conversations s \<and> storage (submit x s) = storage s
       \<and> currentConversationId (submit x s) = Some cid"
proof -
  obtain input resolver stamp1 stamp2 where x: "x = (input, resolver, stamp1, stamp2)"
    by (cases x)
  have drop: "saveMessageToConversation c t k s' = s'"
    if "currentConversationId s' = Some cid" "conversations s' = conversations s" for c t k s'
    using that assms(2) saveMessageToConversation_absent by simp
  show ?thesis
    using assms(1)
    by (cases "resolver (trim input)")
      (simp_all add: x submit_def sendMessage_def sendMessage_begin_def sendMessage_resume_def
        Let_def drop)
qed

lemma submissions_absent:
  "currentConversationId s = Some cid \<Longrightarrow> cid \<notin> id_c ` set (conversations s) \<Longrightarrow>
   conversations (submissions xs s) = conversations s \<and> storage (submissions xs s) = storage s
   \<and> currentConversationId (submissions xs s) = Some cid"
proof (induction xs arbitrary: s)
  case Nil
  then show ?case by (simp add: submissions_def)
next
  case (Cons x xs)
  have step: "conversations (submit x s) = conversations s \<and> storage (submit x s) = storage s
       \<and> currentConversationId (submit x s) = Some cid"
    using Cons.prems by (rule submit_absent)
  then have "conversations (submissions xs (submit x s)) = conversations (submit x s)
     \<and> storage (submissions xs (submit x s)) = storage (submit x s)
     \<and> currentConversationId (submissions xs (submit x s)) = Some cid"
    using Cons.IH [of "submit x s"] Cons.prems(2) by simp
  with step show ?case by (simp add: submissions_def)
qed

text \<open>
  Claim C10. \<^verbatim>\<open>loadConversation\<close> with an id that no conversation of the store has
  still makes that id the active one, and after any run of submissions that follows,
  whatever the resolver answers, the conversation list and the persisted item are
  unchanged: every message is dropped.
\<close>

theorem switch_to_absent_id_drops_messages:
  assumes "cid \<notin> id_c ` set (conversations st)"
  shows "currentConversationId (loadConversation cid st) = Some cid
       \<and> conversations (submissions xs (loadConversation cid st)) = conversations st
       \<and> storage (submissions xs (loadConversation cid st)) = storage st"
  using assms submissions_absent [of "loadConversation cid st" cid xs] by simp

theorem switch_to_absent_id_drops_messages_witness:
  "js ''1600000000000'' \<notin> id_c ` set (conversations (store_of [example_conversation] (Some (js ''1700000000000''))))
   \<and> currentConversationId (loadConversation (js ''1600000000000'')
         (store_of [example_conversation] (Some (js ''1700000000000'')))) = Some (js ''1600000000000'')
   \<and> conversations (submissions
         [(js ''Explain thermodynamics'', \<lambda>m. Inr (getAIResponse m),
           js ''2023-11-14T22:13:21.000Z'', js ''2023-11-14T22:13:23.000Z'')]
         (loadConversation (js ''1600000000000'')
            (store_of [example_conversation] (Some (js ''1700000000000'')))))
       = [example_conversation]
   \<and> storage (submissions
         [(js ''Explain thermodynamics'', \<lambda>m. Inr (getAIResponse m),
           js ''2023-11-14T22:13:21.000Z'', js ''2023-11-14T22:13:23.000Z'')]
         (loadConversation (js ''1600000000000'')
            (store_of [example_conversation] (Some (js ''1700000000000'')))))
       = Some (JSON_stringify [example_conversation])"
proof -
  have a: "js ''1600000000000'' \<notin> id_c ` set (conversations (store_of [example_conversation] (Some (js ''1700000000000''))))"
    by (simp add: store_of_def example_conversation_def js_def)
  show ?thesis
    using a switch_to_absent_id_drops_messages [OF a,
        of "[(js ''Explain thermodynamics'', \<lambda>m. Inr (getAIResponse m),
           js ''2023-11-14T22:13:21.000Z'', js ''2023-11-14T22:13:23.000Z'')]"]
    by (simp add: store_of_def)
qed

subsection \<open>Creating and deleting conversations\<close>

lemma conversations_createNewConversation:
  "conversations (createNewConversation now stamp st) =
     \<lparr>id_c = toString now, title = js ''New Conversation'', messages = [], createdAt = stamp\<rparr>
       # conversations st"
  by (simp add: createNewConversation_def Let_def saveConversations_def)

lemma conversations_creates:
  "conversations (creates ticks st) =
     rev (map (\<lambda>(now, stamp). \<lparr>id_c = toString now, title = js ''New Conversation'',
                 messages = [], createdAt = stamp\<rparr>) ticks) @ conversations st"
proof (induction ticks arbitrary: st)
  case Nil
  show ?case by (simp add: creates_def)
next
  case (Cons t ticks)
  obtain now stamp where t: "t = (now, stamp)" by (cases t)
  have "creates (t # ticks) st = creates ticks (createNewConversation now stamp st)"
    by (simp add: creates_def t)
  then show ?case by (simp add: Cons.IH conversations_createNewConversation t)
qed

lemma ids_creates:
  "map id_c (conversations (creates ticks st)) =
     rev (map (\<lambda>t. toString (fst t)) ticks) @ map id_c (conversations st)"
  by (simp add: conversations_creates rev_map case_prod_beta comp_def)

lemma distinct_map_toString: "distinct (map toString ns) = distinct ns"
proof -
  have "inj_on toString (set ns)" by (auto simp: inj_on_def dest: toString_inj)
  then show ?thesis by (simp add: distinct_map)
qed

lemma toString_eq_iff: "toString i = toString j \<longleftrightarrow> i = j"
  using toString_inj by blast

text \<open>
  Claim C1, as amended. After any run of \<^verbatim>\<open>createNewConversation\<close> from any state,
  the list is the new conversations, the most recent first, followed by the
  conversations of the starting state in their order. The ids are pairwise distinct
  when the ids of the starting state are, the readings of \<^verbatim>\<open>Date.now()\<close> in the run are
  pairwise different and none of them, written in decimal, is an id of the starting
  state.
\<close>

theorem creates_most_recent_first:
  "conversations (creates ticks st) =
     rev (map (\<lambda>(now, stamp). \<lparr>id_c = toString now, title = js ''New Conversation'',
                 messages = [], createdAt = stamp\<rparr>) ticks) @ conversations st
   \<and> (distinct (map fst ticks) \<and> distinct (map id_c (conversations st))
        \<and> (\<forall>now \<in> set (map fst ticks). toString now \<notin> id_c ` set (conversations st))
      \<longrightarrow> distinct (map id_c (conversations (creates ticks st))))"
proof -
  have ids: "map id_c (conversations (creates ticks st)) =
     rev (map toString (map fst ticks)) @ map id_c (conversations st)"
    by (simp add: ids_creates comp_def)
  have "distinct (map id_c (conversations (creates ticks st)))"
    if "distinct (map fst ticks)" "distinct (map id_c (conversations st))"
      "\<forall>now \<in> set (map fst ticks). toString now \<notin> id_c ` set (conversations st)"
  proof -
    have "distinct (rev (map toString (map fst ticks)))"
      using that(1) by (simp only: distinct_rev distinct_map_toString)
    moreover have "set (rev (map toString (map fst ticks))) \<inter> set (map id_c (conversations st)) = {}"
      using that(3) by auto
    ultimately show ?thesis using that(2) by (simp only: ids distinct_append)
  qed
  then show ?thesis using conversations_creates by blast
qed

theorem creates_most_recent_first_witness:
  "distinct (map fst [(1700000000000 :: int, js ''2023-11-14T22:13:20.000Z''),
                      (1700000000007, js ''2023-11-14T22:13:20.007Z'')])
   \<and> distinct (map id_c (conversations (store_of [] None)))
   \<and> toString 1700000000000 \<notin> id_c ` set (conversations (store_of [] None))
   \<and> toString 1700000000007 \<notin> id_c ` set (conversations (store_of [] None))
   \<and> distinct (map id_c (conversations
         (creates [(1700000000000, js ''2023-11-14T22:13:20.000Z''),
                   (1700000000007, js ''2023-11-14T22:13:20.007Z'')] (store_of [] None))))"
  using creates_most_recent_first
     [of "[(1700000000000, js ''2023-11-14T22:13:20.000Z''),
           (1700000000007, js ''2023-11-14T22:13:20.007Z'')]" "store_of [] None"]
  by (simp add: store_of_def toString_eq_iff)

text \<open>
  The claim as stated fails: the id is the clock reading, so two calls at the same
  millisecond give two conversations one id.
\<close>

theorem creates_same_clock_counterexample:
  "\<not> distinct (map id_c (conversations
        (creates [(1700000000000, js ''2023-11-14T22:13:20.000Z''),
                  (1700000000000, js ''2023-11-14T22:13:20.000Z'')] (store_of [] None))))"
  by (simp add: creates_def conversations_createNewConversation)

lemma findById_filter_other: "findById cid (filter (\<lambda>c. id_c c \<noteq> cid) cs) = None"
  by (auto simp: findById_None_iff)

lemma deleteConversation_conversations:
  "conversations (deleteConversation cid now stamp st) =
     (if currentConversationId st = Some cid \<and> filter (\<lambda>c. id_c c \<noteq> cid) (conversations st) = []
      then [\<lparr>id_c = toString now, title = js ''New Conversation'', messages = [], createdAt = stamp\<rparr>]
      else filter (\<lambda>c. id_c c \<noteq> cid) (conversations st))"
  by (simp add: deleteConversation_def Let_def saveConversations_def
      conversations_createNewConversation split: list.split)

lemma deleteConversation_current:
  "currentConversationId (deleteConversation cid now stamp st) =
     (if currentConversationId st = Some cid
      then (case filter (\<lambda>c. id_c c \<noteq> cid) (conversations st) of
              first # rest \<Rightarrow> Some (id_c first) | [] \<Rightarrow> Some (toString now))
      else currentConversationId st)"
  by (simp add: deleteConversation_def Let_def saveConversations_def createNewConversation_def
      split: list.split)

text \<open>
  Claim C8, as amended. After \<^verbatim>\<open>deleteConversation\<close>, looking the id up finds nothing,
  unless the deleted conversation was the active one, the store became empty and the
  conversation created in its place got the same id from the clock. When the deleted
  id was the active one, the list afterwards is the remaining conversations, or the
  single fresh conversation when none remains; the active id is the id of the first
  conversation of that list and looking it up yields that conversation, the only one
  with that id when the ids of the store were pairwise distinct.
\<close>

theorem deleteConversation_removes_and_reactivates:
  "((currentConversationId st \<noteq> Some cid \<or> (\<exists>c \<in> set (conversations st). id_c c \<noteq> cid)
       \<or> toString now \<noteq> cid)
      \<longrightarrow> findById cid (conversations (deleteConversation cid now stamp st)) = None)
   \<and> (currentConversationId st = Some cid \<longrightarrow>
        conversations (deleteConversation cid now stamp st) =
          (if filter (\<lambda>c. id_c c \<noteq> cid) (conversations st) = []
           then [\<lparr>id_c = toString now, title = js ''New Conversation'', messages = [],
                  createdAt = stamp\<rparr>]
           else filter (\<lambda>c. id_c c \<noteq> cid) (conversations st))
        \<and> (\<exists>first rest. conversations (deleteConversation cid now stamp st) = first # rest
              \<and> currentConversationId (deleteConversation cid now stamp st) = Some (id_c first)
              \<and> findById (id_c first) (conversations (deleteConversation cid now stamp st)) = Some first
              \<and> (distinct (map id_c (conversations st)) \<longrightarrow>
                   filter (\<lambda>c. id_c c = id_c first) (conversations (deleteConversation cid now stamp st))
                     = [first])))"
proof -
  let ?rem = "filter (\<lambda>c. id_c c \<noteq> cid) (conversations st)"
  let ?st' = "deleteConversation cid now stamp st"
  let ?fresh = "\<lparr>id_c = toString now, title = js ''New Conversation'', messages = [], createdAt = stamp\<rparr>"
  have A: "findById cid (conversations ?st') = None"
    if "currentConversationId st \<noteq> Some cid \<or> (\<exists>c \<in> set (conversations st). id_c c \<noteq> cid)
       \<or> toString now \<noteq> cid"
  proof (cases "currentConversationId st = Some cid \<and> ?rem = []")
    case True
    then have "\<forall>c \<in> set (conversations st). id_c c = cid" by (simp add: filter_empty_conv)
    with that True have "toString now \<noteq> cid" by blast
    with True show ?thesis
      by (simp add: deleteConversation_conversations findById_Cons)
  next
    case False
    then have "conversations ?st' = ?rem" by (simp only: deleteConversation_conversations if_False)
    then show ?thesis by (simp only: findById_filter_other)
  qed
  have B: "\<exists>first rest. conversations ?st' = first # rest
              \<and> currentConversationId ?st' = Some (id_c first)
              \<and> findById (id_c first) (conversations ?st') = Some first
              \<and> (distinct (map id_c (conversations st)) \<longrightarrow>
                   filter (\<lambda>c. id_c c = id_c first) (conversations ?st') = [first])"
    if cur: "currentConversationId st = Some cid"
  proof (cases ?rem)
    case Nil
    with cur have "conversations ?st' = [?fresh]" "currentConversationId ?st' = Some (toString now)"
      by (simp_all add: deleteConversation_conversations deleteConversation_current)
    then show ?thesis by (simp add: findById_Cons)
  next
    case (Cons first rest)
    with cur have c: "conversations ?st' = first # rest" and i: "currentConversationId ?st' = Some (id_c first)"
      by (simp_all add: deleteConversation_conversations deleteConversation_current)
    have "filter (\<lambda>c. id_c c = id_c first) (first # rest) = [first]"
      if "distinct (map id_c (conversations st))"
    proof -
      from that have "distinct (map id_c ?rem)" by (rule distinct_map_filter)
      with Cons have "id_c first \<notin> id_c ` set rest" by simp
      then have "\<forall>x \<in> set rest. id_c x \<noteq> id_c first"
        by (metis imageI)
      then have "filter (\<lambda>c. id_c c = id_c first) rest = []"
        by (simp only: filter_empty_conv)
      then show ?thesis by simp
    qed
    with c i show ?thesis by (simp add: findById_Cons)
  qed
  have C: "conversations ?st' = (if ?rem = [] then [?fresh] else ?rem)"
    if "currentConversationId st = Some cid"
    using that by (simp add: deleteConversation_conversations)
  from A B C show ?thesis by blast
qed

theorem deleteConversation_removes_and_reactivates_witness:
  "currentConversationId (store_of [example_conversation] (Some (js ''1700000000000'')))
      = Some (js ''1700000000000'')
   \<and> toString 1700000600000 \<noteq> js ''1700000000000''
   \<and> findById (js ''1700000000000'') (conversations (deleteConversation (js ''1700000000000'')
          1700000600000 (js ''2023-11-14T22:23:20.000Z'')
          (store_of [example_conversation] (Some (js ''1700000000000''))))) = None
   \<and> conversations (deleteConversation (js ''1700000000000'')
          1700000600000 (js ''2023-11-14T22:23:20.000Z'')
          (store_of [example_conversation] (Some (js ''1700000000000''))))
       = [\<lparr>id_c = toString 1700000600000, title = js ''New Conversation'', messages = [],
            createdAt = js ''2023-11-14T22:23:20.000Z''\<rparr>]"
proof -
  have a: "currentConversationId (store_of [example_conversation] (Some (js ''1700000000000'')))
      = Some (js ''1700000000000'')"
    by (simp add: store_of_def)
  have b: "toString 1700000600000 \<noteq> js ''1700000000000''"
    by (simp add: toString_def digits.simps js_def digit_unit_def)
  have c: "filter (\<lambda>c. id_c c \<noteq> js ''1700000000000'')
             (conversations (store_of [example_conversation] (Some (js ''1700000000000'')))) = []"
    by (simp add: store_of_def example_conversation_def)
  note inst = deleteConversation_removes_and_reactivates
      [of "store_of [example_conversation] (Some (js ''1700000000000''))" "js ''1700000000000''"
        1700000600000 "js ''2023-11-14T22:23:20.000Z''"]
  from inst b have gone: "findById (js ''1700000000000'') (conversations (deleteConversation
          (js ''1700000000000'') 1700000600000 (js ''2023-11-14T22:23:20.000Z'')
          (store_of [example_conversation] (Some (js ''1700000000000''))))) = None"
    by blast
  from inst a have "conversations (deleteConversation (js ''1700000000000'')
          1700000600000 (js ''2023-11-14T22:23:20.000Z'')
          (store_of [example_conversation] (Some (js ''1700000000000''))))
       = (if filter (\<lambda>c. id_c c \<noteq> js ''1700000000000'')
             (conversations (store_of [example_conversation] (Some (js ''1700000000000'')))) = []
          then [\<lparr>id_c = toString 1700000600000, title = js ''New Conversation'', messages = [],
                 createdAt = js ''2023-11-14T22:23:20.000Z''\<rparr>]
          else filter (\<lambda>c. id_c c \<noteq> js ''1700000000000'')
             (conversations (store_of [example_conversation] (Some (js ''1700000000000'')))))"
    by blast
  then have fresh: "conversations (deleteConversation (js ''1700000000000'')
          1700000600000 (js ''2023-11-14T22:23:20.000Z'')
          (store_of [example_conversation] (Some (js ''1700000000000''))))
       = [\<lparr>id_c = toString 1700000600000, title = js ''New Conversation'', messages = [],
            createdAt = js ''2023-11-14T22:23:20.000Z''\<rparr>]"
    by (simp only: c if_True simp_thms)
  from a b gone fresh show ?thesis by blast
qed

text \<open>
  The claim as stated fails when the clock reads, at the deletion, the number that is the
  id of the only conversation: the fresh conversation takes the deleted id.
\<close>

theorem deleteConversation_same_clock_counterexample:
  "findById (js ''1700000000000'') (conversations (deleteConversation (js ''1700000000000'')
      1700000000000 (js ''2023-11-14T22:13:20.000Z'')
      (store_of [example_conversation] (Some (js ''1700000000000''))))) \<noteq> None"
proof -
  have "toString 1700000000000 = js ''1700000000000''"
    by (simp add: toString_def digits.simps js_def digit_unit_def)
  then show ?thesis
    by (simp add: deleteConversation_conversations store_of_def example_conversation_def
        findById_def)
qed

subsection \<open>The resolver\<close>

lemma first_match_at:
  "i < length entries \<Longrightarrow> includes_js lm (fst (entries ! i)) \<Longrightarrow>
   \<forall>j < i. \<not> includes_js lm (fst (entries ! j)) \<Longrightarrow>
   first_match entries lm = Some (snd (entries ! i))"
proof (induction entries arbitrary: i)
  case Nil
  then show ?case by simp
next
  case (Cons e entries)
  obtain k r where e: "e = (k, r)" by (cases e)
  show ?case
  proof (cases i)
    case 0
    with Cons.prems e show ?thesis by simp
  next
    case (Suc i')
    with Cons.prems have "\<not> includes_js lm k" using e by auto
    moreover have "first_match entries lm = Some (snd (entries ! i'))"
    proof (rule Cons.IH)
      show "i' < length entries" using Cons.prems(1) Suc by simp
      show "includes_js lm (fst (entries ! i'))" using Cons.prems(2) Suc by simp
      show "\<forall>j < i'. \<not> includes_js lm (fst (entries ! j))"
      proof (intro allI impI)
        fix j assume "j < i'"
        then have "Suc j < i" using Suc by simp
        then have "\<not> includes_js lm (fst ((e # entries) ! Suc j))" using Cons.prems(3) by blast
        then show "\<not> includes_js lm (fst (entries ! j))" by simp
      qed
    qed
    ultimately show ?thesis using e Suc by simp
  qed
qed

lemma first_match_none:
  "\<forall>e \<in> set entries. \<not> includes_js lm (fst e) \<Longrightarrow> first_match entries lm = None"
  by (induction entries) auto

lemma toLowerCase_append: "toLowerCase (a @ b) = toLowerCase a @ toLowerCase b"
  by (simp add: toLowerCase_def)

text \<open>
  Claim C4. \<^verbatim>\<open>getAIResponse\<close> returns the response of the first keyword of the table,
  in the order of the table, that occurs in the lowered message; the default response
  when no keyword occurs; and the response for \<^verbatim>\<open>newton\<close> for every message in which
  a run of code units lowers to \<^verbatim>\<open>newton\<close>, whatever stands before and after it.
\<close>

theorem getAIResponse_first_keyword:
  "(\<forall>i < length responses.
      (\<exists>p q. toLowerCase message = p @ fst (responses ! i) @ q)
      \<and> (\<forall>j < i. \<not> (\<exists>p q. toLowerCase message = p @ fst (responses ! j) @ q))
      \<longrightarrow> getAIResponse message = snd (responses ! i))
   \<and> ((\<forall>e \<in> set responses. \<not> (\<exists>p q. toLowerCase message = p @ fst e @ q))
        \<longrightarrow> getAIResponse message = default_response)
   \<and> (\<forall>p w q. toLowerCase w = js ''newton'' \<longrightarrow> getAIResponse (p @ w @ q) = newton_response)"
proof (intro conjI allI impI)
  fix i
  assume "i < length responses"
    and "(\<exists>p q. toLowerCase message = p @ fst (responses ! i) @ q)
      \<and> (\<forall>j < i. \<not> (\<exists>p q. toLowerCase message = p @ fst (responses ! j) @ q))"
  then have "first_match responses (toLowerCase message) = Some (snd (responses ! i))"
    by (intro first_match_at) (simp_all add: includes_js_iff)
  then show "getAIResponse message = snd (responses ! i)"
    by (simp add: getAIResponse_def)
next
  assume "\<forall>e \<in> set responses. \<not> (\<exists>p q. toLowerCase message = p @ fst e @ q)"
  then have "first_match responses (toLowerCase message) = None"
    by (intro first_match_none) (simp add: includes_js_iff)
  then show "getAIResponse message = default_response"
    by (simp add: getAIResponse_def)
next
  fix p w q :: jsstring
  assume "toLowerCase w = js ''newton''"
  then have "toLowerCase (p @ w @ q) = toLowerCase p @ js ''newton'' @ toLowerCase q"
    by (simp add: toLowerCase_append)
  then have "includes_js (toLowerCase (p @ w @ q)) (js ''newton'')"
    unfolding includes_js_iff by blast
  then show "getAIResponse (p @ w @ q) = newton_response"
    by (simp add: getAIResponse_def responses_def)
qed

theorem getAIResponse_first_keyword_witness:
  "toLowerCase (js ''NewTon'') = js ''newton''
   \<and> getAIResponse (js ''Is this '' @ js ''NewTon'' @ js ''ian mechanics?'') = newton_response
   \<and> (1 < length responses
        \<and> (\<exists>p q. toLowerCase (js ''What is quantum mechanics?'') = p @ fst (responses ! 1) @ q)
        \<and> \<not> (\<exists>p q. toLowerCase (js ''What is quantum mechanics?'') = p @ fst (responses ! 0) @ q))
   \<and> getAIResponse (js ''What is quantum mechanics?'') = quantum_response"
proof -
  have low: "toLowerCase (js ''NewTon'') = js ''newton''"
    by (simp add: toLowerCase_def toLowerCase_unit_def js_def)
  have n: "getAIResponse (js ''Is this '' @ js ''NewTon'' @ js ''ian mechanics?'') = newton_response"
    using getAIResponse_first_keyword [of "[]"] low by blast
  have len: "1 < length responses" by (simp add: responses_def)
  have k1: "fst (responses ! 1) = js ''quantum''" and k0: "fst (responses ! 0) = js ''newton''"
    and r1: "snd (responses ! 1) = quantum_response"
    by (simp_all add: responses_def)
  have inc: "includes_js (toLowerCase (js ''What is quantum mechanics?'')) (js ''quantum'')"
    by (simp add: toLowerCase_def toLowerCase_unit_def js_def)
  have exc: "\<not> includes_js (toLowerCase (js ''What is quantum mechanics?'')) (js ''newton'')"
    by (simp add: toLowerCase_def toLowerCase_unit_def js_def)
  have a: "\<exists>p q. toLowerCase (js ''What is quantum mechanics?'') = p @ fst (responses ! 1) @ q"
    using inc by (simp only: k1 includes_js_iff)
  have b: "\<forall>j < 1. \<not> (\<exists>p q. toLowerCase (js ''What is quantum mechanics?'') = p @ fst (responses ! j) @ q)"
    using exc by (simp add: k0 includes_js_iff)
  have "getAIResponse (js ''What is quantum mechanics?'') = snd (responses ! 1)"
    using getAIResponse_first_keyword [of "js ''What is quantum mechanics?''"] len a b by blast
  moreover have "\<not> (\<exists>p q. toLowerCase (js ''What is quantum mechanics?'') = p @ fst (responses ! 0) @ q)"
    using b by blast
  ultimately show ?thesis using low n len a r1 by simp
qed

subsection \<open>JSON: what is written is read back\<close>

lemma unat_hex_digit: "n < 16 \<Longrightarrow> unat (hex_digit n) = (if n < 10 then 48 + n else 87 + n)"
proof (cases "n < 10")
  case True
  assume "n < 16"
  have "unat (of_nat (48 + n) :: 16 word) = 48 + n"
    using True by (simp only: unat_of_nat) simp
  with True show ?thesis by (simp only: hex_digit_def if_True)
next
  case False
  assume "n < 16"
  then have "unat (of_nat (87 + n) :: 16 word) = 87 + n"
    by (simp only: unat_of_nat) simp
  with False show ?thesis by (simp only: hex_digit_def if_False)
qed

lemma hex_value_hex_digit: "n < 16 \<Longrightarrow> hex_value (hex_digit n) = Some n"
  by (simp add: hex_value_def word_le_nat_alt unat_hex_digit)

lemma nibbles:
  "((x div 4096 * 16 + x div 256 mod 16) * 16 + x div 16 mod 16) * 16 + x mod 16 = (x::nat)"
proof -
  have d1: "x div 256 = x div 16 div 16"
    using div_mult2_eq [of x 16 16] by simp
  have d2: "x div 4096 = x div 16 div 16 div 16"
    using div_mult2_eq [of x 256 16] d1 by simp
  show ?thesis by (simp only: d1 d2 div_mult_mod_eq)
qed

lemma hex4_UnicodeEscape:
  "hex4 (hex_digit (unat c div 4096)) (hex_digit (unat c div 256 mod 16))
        (hex_digit (unat c div 16 mod 16)) (hex_digit (unat c mod 16)) = Some (c :: 16 word)"
proof -
  have lt: "unat c < 65536" using unsigned_less [of c] by simp
  then have a: "unat c div 4096 < 16" by simp
  have h1: "hex_value (hex_digit (unat c div 4096)) = Some (unat c div 4096)"
    using a by (rule hex_value_hex_digit)
  have h2: "hex_value (hex_digit (unat c div 256 mod 16)) = Some (unat c div 256 mod 16)"
    by (rule hex_value_hex_digit) simp
  have h3: "hex_value (hex_digit (unat c div 16 mod 16)) = Some (unat c div 16 mod 16)"
    by (rule hex_value_hex_digit) simp
  have h4: "hex_value (hex_digit (unat c mod 16)) = Some (unat c mod 16)"
    by (rule hex_value_hex_digit) simp
  show ?thesis
    unfolding hex4_def h1 h2 h3 h4
    by (simp only: prod.case option.case nibbles) simp
qed

lemma parse_chars_UnicodeEscape:
  "parse_chars (UnicodeEscape c @ t) = cons_unit c (parse_chars t)"
  by (simp add: UnicodeEscape_def hex4_UnicodeEscape)

lemma lead_plain: "is_lead_surrogate c \<Longrightarrow> c \<noteq> 0x22 \<and> c \<noteq> 0x5C \<and> \<not> c < 0x20"
  by (auto simp: is_lead_surrogate_def word_le_nat_alt word_less_nat_alt)

lemma trail_plain: "is_trail_surrogate c \<Longrightarrow> c \<noteq> 0x22 \<and> c \<noteq> 0x5C \<and> \<not> c < 0x20"
  by (auto simp: is_trail_surrogate_def word_le_nat_alt word_less_nat_alt)

lemma parse_chars_plain:
  "c \<noteq> 0x22 \<Longrightarrow> c \<noteq> 0x5C \<Longrightarrow> \<not> c < 0x20 \<Longrightarrow> parse_chars (c # t) = cons_unit c (parse_chars t)"
  by simp

lemma parse_chars_escape:
  "unescape e = Some u \<Longrightarrow> e \<noteq> 0x75 \<Longrightarrow> parse_chars (0x5C # e # t) = cons_unit u (parse_chars t)"
  by simp

lemma parse_chars_quote_unit:
  "parse_chars (quote_unit c @ t) = cons_unit c (parse_chars t)"
proof -
  consider "c = 0x08" | "c = 0x09" | "c = 0x0A" | "c = 0x0C" | "c = 0x0D" | "c = 0x22" | "c = 0x5C"
    | "c \<notin> {0x08, 0x09, 0x0A, 0x0C, 0x0D, 0x22, 0x5C}"
        "c < 0x20 \<or> is_lead_surrogate c \<or> is_trail_surrogate c"
    | "c \<notin> {0x08, 0x09, 0x0A, 0x0C, 0x0D, 0x22, 0x5C}"
        "\<not> (c < 0x20 \<or> is_lead_surrogate c \<or> is_trail_surrogate c)"
    by blast
  then show ?thesis
  proof cases
    case 1
    then have "quote_unit c @ t = 0x5C # 0x62 # t" by (simp add: quote_unit_def)
    moreover have "parse_chars (0x5C # 0x62 # t) = cons_unit 0x08 (parse_chars t)"
      by (rule parse_chars_escape) (simp_all add: unescape_def)
    ultimately show ?thesis using 1 by simp
  next
    case 2
    then have "quote_unit c @ t = 0x5C # 0x74 # t" by (simp add: quote_unit_def)
    moreover have "parse_chars (0x5C # 0x74 # t) = cons_unit 0x09 (parse_chars t)"
      by (rule parse_chars_escape) (simp_all add: unescape_def)
    ultimately show ?thesis using 2 by simp
  next
    case 3
    then have "quote_unit c @ t = 0x5C # 0x6E # t" by (simp add: quote_unit_def)
    moreover have "parse_chars (0x5C # 0x6E # t) = cons_unit 0x0A (parse_chars t)"
      by (rule parse_chars_escape) (simp_all add: unescape_def)
    ultimately show ?thesis using 3 by simp
  next
    case 4
    then have "quote_unit c @ t = 0x5C # 0x66 # t" by (simp add: quote_unit_def)
    moreover have "parse_chars (0x5C # 0x66 # t) = cons_unit 0x0C (parse_chars t)"
      by (rule parse_chars_escape) (simp_all add: unescape_def)
    ultimately show ?thesis using 4 by simp
  next
    case 5
    then have "quote_unit c @ t = 0x5C # 0x72 # t" by (simp add: quote_unit_def)
    moreover have "parse_chars (0x5C # 0x72 # t) = cons_unit 0x0D (parse_chars t)"
      by (rule parse_chars_escape) (simp_all add: unescape_def)
    ultimately show ?thesis using 5 by simp
  next
    case 6
    then have "quote_unit c @ t = 0x5C # 0x22 # t" by (simp add: quote_unit_def)
    moreover have "parse_chars (0x5C # 0x22 # t) = cons_unit 0x22 (parse_chars t)"
      by (rule parse_chars_escape) (simp_all add: unescape_def)
    ultimately show ?thesis using 6 by simp
  next
    case 7
    then have "quote_unit c @ t = 0x5C # 0x5C # t" by (simp add: quote_unit_def)
    moreover have "parse_chars (0x5C # 0x5C # t) = cons_unit 0x5C (parse_chars t)"
      by (rule parse_chars_escape) (simp_all add: unescape_def)
    ultimately show ?thesis using 7 by simp
  next
    case 8
    then have "quote_unit c = UnicodeEscape c" by (simp add: quote_unit_def)
    then show ?thesis by (simp only: parse_chars_UnicodeEscape)
  next
    case 9
    then have "quote_unit c = [c]" by (simp add: quote_unit_def)
    moreover have "parse_chars (c # t) = cons_unit c (parse_chars t)"
      using 9 by (intro parse_chars_plain) simp_all
    ultimately show ?thesis by simp
  qed
qed

declare parse_chars.simps [simp del]

lemma parse_chars_quote_units:
  "parse_chars (quote_units s @ 0x22 # rest) = Some (s, rest)"
proof (induction s rule: quote_units.induct)
  case 1
  show ?case by (simp add: parse_chars.simps)
next
  case (2 c)
  have "parse_chars (0x22 # rest) = Some ([], rest)" by (simp add: parse_chars.simps)
  then show ?case by (simp add: parse_chars_quote_unit cons_unit_def)
next
  case (3 c d ds)
  show ?case
  proof (cases "is_lead_surrogate c \<and> is_trail_surrogate d")
    case True
    then have ih: "parse_chars (quote_units ds @ 0x22 # rest) = Some (ds, rest)" using 3 by simp
    have "parse_chars (c # d # quote_units ds @ 0x22 # rest)
            = cons_unit c (cons_unit d (parse_chars (quote_units ds @ 0x22 # rest)))"
      using True lead_plain [of c] trail_plain [of d] by (simp add: parse_chars_plain)
    with True ih show ?thesis by (simp add: cons_unit_def)
  next
    case False
    then have "parse_chars (quote_units (d # ds) @ 0x22 # rest) = Some (d # ds, rest)"
      using 3 by simp
    moreover have "quote_units (c # d # ds) = quote_unit c @ quote_units (d # ds)"
      using False by (simp only: quote_units.simps if_False)
    ultimately show ?thesis
      by (simp add: parse_chars_quote_unit cons_unit_def)
  qed
qed

declare parse_value.simps [simp del] parse_elements.simps [simp del] parse_members.simps [simp del]

lemma skip_space_plain: "\<not> is_json_space c \<Longrightarrow> skip_space (c # t) = c # t"
  by simp

lemma punct_not_space:
  "\<not> is_json_space 0x22" "\<not> is_json_space 0x3A" "\<not> is_json_space 0x2C"
  "\<not> is_json_space 0x7D" "\<not> is_json_space 0x5D" "\<not> is_json_space 0x7B"
  "\<not> is_json_space 0x5B"
  by (simp_all add: is_json_space_def)

lemma parse_value_string:
  "parse_value (QuoteJSONString s @ rest) = Some (JString s, rest)"
  by (simp add: QuoteJSONString_def parse_value.simps parse_chars_quote_units)

lemma prints_string: "prints (QuoteJSONString s) (JString s)"
  unfolding prints_def
  by (simp add: parse_value_string) (simp add: QuoteJSONString_def punct_not_space)

lemma parse_members_last:
  assumes "prints vt v"
  shows "parse_members (member k vt @ 0x7D # rest) = Some ([(k, v)], rest)"
proof -
  from assms obtain c t where vt: "vt = c # t" and c: "\<not> is_json_space c"
    and pv: "parse_value (vt @ 0x7D # rest) = Some (v, 0x7D # rest)"
    unfolding prints_def by blast
  have m: "member k vt @ 0x7D # rest = 0x22 # (quote_units k @ 0x22 # (0x3A # vt @ 0x7D # rest))"
    by (simp add: member_def QuoteJSONString_def)
  show ?thesis
    unfolding m
    apply (subst parse_members.simps)
    apply (simp only: parse_chars_quote_units if_True option.case prod.case)
    apply (simp only: skip_space_plain [OF punct_not_space(2)] list.case)
    apply (simp add: vt c)
    apply (simp only: pv [unfolded vt, simplified] option.case prod.case)
    apply (simp add: punct_not_space)
    done
qed

lemma parse_members_more:
  assumes "prints vt v"
  shows "parse_members (member k vt @ 0x2C # 0x22 # nxt)
     = (case parse_members (0x22 # nxt) of
          None \<Rightarrow> None
        | Some (ms, rest) \<Rightarrow> Some ((k, v) # ms, rest))"
proof -
  from assms obtain c t where vt: "vt = c # t" and c: "\<not> is_json_space c"
    and pv: "parse_value (vt @ 0x2C # 0x22 # nxt) = Some (v, 0x2C # 0x22 # nxt)"
    unfolding prints_def by blast
  have m: "member k vt @ 0x2C # 0x22 # nxt
             = 0x22 # (quote_units k @ 0x22 # (0x3A # vt @ 0x2C # 0x22 # nxt))"
    by (simp add: member_def QuoteJSONString_def)
  show ?thesis
    unfolding m
    apply (subst parse_members.simps)
    apply (simp only: parse_chars_quote_units if_True option.case prod.case)
    apply (simp only: skip_space_plain [OF punct_not_space(2)] list.case)
    apply (simp add: vt c)
    apply (simp only: pv [unfolded vt, simplified] option.case prod.case)
    apply (simp add: punct_not_space)
    done
qed

lemma parse_elements_join:
  assumes "\<And>x. x \<in> set (x0 # xs) \<Longrightarrow> prints (pr x) (val x)"
  shows "parse_elements (join_comma (map pr (x0 # xs)) @ 0x5D # rest)
           = Some (map val (x0 # xs), rest)"
  using assms
proof (induction xs arbitrary: x0)
  case Nil
  then have p: "prints (pr x0) (val x0)" by simp
  then obtain c t where vt: "pr x0 = c # t" and c: "\<not> is_json_space c"
    and pv: "parse_value (pr x0 @ 0x5D # rest) = Some (val x0, 0x5D # rest)"
    unfolding prints_def by blast
  show ?case
    apply (simp only: list.map join_comma.simps)
    apply (subst parse_elements.simps)
    apply (simp only: pv option.case prod.case)
    apply (simp add: vt punct_not_space)
    done
next
  case (Cons x1 xs)
  then have p: "prints (pr x0) (val x0)" by simp
  have ih: "parse_elements (join_comma (map pr (x1 # xs)) @ 0x5D # rest)
              = Some (map val (x1 # xs), rest)"
    using Cons.prems by (intro Cons.IH) simp
  from Cons.prems have "prints (pr x1) (val x1)" by simp
  then obtain c1 t1 where v1: "pr x1 = c1 # t1" and c1: "\<not> is_json_space c1"
    unfolding prints_def by blast
  have start: "join_comma (map pr (x1 # xs)) @ 0x5D # rest = c1 # (t1 @ drop (length (pr x1)) (join_comma (map pr (x1 # xs)) @ 0x5D # rest))"
    by (cases xs) (simp_all add: v1)
  let ?tail = "join_comma (map pr (x1 # xs)) @ 0x5D # rest"
  from p obtain c t where vt: "pr x0 = c # t" and c: "\<not> is_json_space c"
    and pv: "parse_value (pr x0 @ 0x2C # ?tail) = Some (val x0, 0x2C # ?tail)"
    unfolding prints_def by blast
  have sk: "skip_space ?tail = ?tail"
    by (subst start, subst (2) start) (simp only: skip_space_plain [OF c1])
  have j: "join_comma (map pr (x0 # x1 # xs)) @ 0x5D # rest = pr x0 @ 0x2C # ?tail"
    by simp
  show ?case
    unfolding j
    apply (subst parse_elements.simps)
    apply (simp only: pv option.case prod.case)
    apply (simp add: vt punct_not_space del: join_comma.simps list.map)
    apply (simp only: sk ih option.case prod.case)
    apply simp
    done
qed

lemma prints_array:
  assumes "\<And>x. x \<in> set xs \<Longrightarrow> prints (pr x) (val x)"
  shows "prints (SerializeJSONArray (map pr xs)) (JArray (map val xs))"
proof (cases xs)
  case Nil
  then show ?thesis
    by (simp add: prints_def SerializeJSONArray_def parse_value.simps punct_not_space)
next
  case (Cons x0 xs')
  have pe: "parse_elements (join_comma (map pr (x0 # xs')) @ 0x5D # rest)
              = Some (map val (x0 # xs'), rest)" for rest
    using assms Cons by (intro parse_elements_join) simp
  from assms Cons have "prints (pr x0) (val x0)" by simp
  then obtain c t where v0: "pr x0 = c # t" and c: "\<not> is_json_space c"
    and p0: "\<And>rest. parse_value (pr x0 @ rest) = Some (val x0, rest)"
    unfolding prints_def by blast
  have c5d: "c \<noteq> 0x5D"
  proof
    assume "c = 0x5D"
    then have "parse_value (pr x0 @ []) = None"
      by (simp add: v0 parse_value.simps startsWith.simps js_def parse_number_def is_digit_def)
    with p0 [of "[]"] show False by simp
  qed
  have start: "join_comma (map pr (x0 # xs')) @ 0x5D # rest
      = c # (t @ drop (length (pr x0)) (join_comma (map pr (x0 # xs')) @ 0x5D # rest))" for rest
    by (cases xs') (simp_all add: v0)
  have "parse_value (SerializeJSONArray (map pr (x0 # xs')) @ rest)
          = Some (JArray (map val (x0 # xs')), rest)" for rest
  proof -
    have s: "SerializeJSONArray (map pr (x0 # xs')) @ rest
               = 0x5B # (join_comma (map pr (x0 # xs')) @ 0x5D # rest)"
      by (simp add: SerializeJSONArray_def)
    have sk: "skip_space (join_comma (map pr (x0 # xs')) @ 0x5D # rest)
               = c # (t @ drop (length (pr x0)) (join_comma (map pr (x0 # xs')) @ 0x5D # rest))"
      by (subst start) (simp only: skip_space_plain [OF c])
    show ?thesis
      unfolding s
      apply (subst parse_value.simps)
      apply (simp only: sk list.case)
      apply (simp only: start [symmetric] pe)
      apply (simp add: c5d)
      done
  qed
  then show ?thesis
    unfolding prints_def Cons by (simp add: SerializeJSONArray_def punct_not_space)
qed

lemma member_Cons: "member k vt = 0x22 # (quote_units k @ 0x22 # 0x3A # vt)"
  by (simp add: member_def QuoteJSONString_def)

lemma parse_members_next:
  assumes "prints vt v"
  shows "parse_members (member k vt @ 0x2C # member k' vt' @ r)
     = (case parse_members (member k' vt' @ r) of
          None \<Rightarrow> None
        | Some (ms, rest) \<Rightarrow> Some ((k, v) # ms, rest))"
  using parse_members_more [OF assms, of k "quote_units k' @ 0x22 # 0x3A # vt' @ r"]
  by (simp add: member_Cons [of k' vt'])

lemma parse_value_object:
  "parse_value (0x7B # member k vt @ r)
     = (case parse_members (member k vt @ r) of
          None \<Rightarrow> None
        | Some (ms, rest) \<Rightarrow> Some (JObject ms, rest))"
  by (simp add: member_Cons [of k vt] parse_value.simps punct_not_space)

lemma prints_message: "prints (stringify_message m) (json_of_message m)"
proof -
  have "parse_value (stringify_message m @ rest) = Some (json_of_message m, rest)" for rest
  proof -
    have s: "stringify_message m @ rest
       = 0x7B # member (js ''content'') (QuoteJSONString (content m)) @ 0x2C #
           member (js ''type'') (QuoteJSONString (type m)) @ 0x2C #
           member (js ''timestamp'') (QuoteJSONString (timestamp m)) @ 0x7D # rest"
      by (simp add: stringify_message_def SerializeJSONObject_def)
    show ?thesis
      unfolding s
      by (simp only: parse_value_object parse_members_next [OF prints_string]
          parse_members_last [OF prints_string] option.case prod.case json_of_message_def)
  qed
  then show ?thesis
    by (simp add: prints_def stringify_message_def SerializeJSONObject_def punct_not_space)
qed

lemma prints_conversation: "prints (stringify_conversation c) (json_of_conversation c)"
proof -
  have pm: "prints (SerializeJSONArray (map stringify_message (messages c)))
              (JArray (map json_of_message (messages c)))"
    by (rule prints_array) (rule prints_message)
  have "parse_value (stringify_conversation c @ rest) = Some (json_of_conversation c, rest)" for rest
  proof -
    have s: "stringify_conversation c @ rest
       = 0x7B # member (js ''id'') (QuoteJSONString (id_c c)) @ 0x2C #
           member (js ''title'') (QuoteJSONString (title c)) @ 0x2C #
           member (js ''messages'') (SerializeJSONArray (map stringify_message (messages c))) @ 0x2C #
           member (js ''createdAt'') (QuoteJSONString (createdAt c)) @ 0x7D # rest"
      by (simp add: stringify_conversation_def SerializeJSONObject_def)
    show ?thesis
      unfolding s
      by (simp only: parse_value_object parse_members_next [OF prints_string]
          parse_members_next [OF pm]
          parse_members_last [OF prints_string] option.case prod.case json_of_conversation_def)
  qed
  then show ?thesis
    by (simp add: prints_def stringify_conversation_def SerializeJSONObject_def punct_not_space)
qed

lemma JSON_parse_stringify: "JSON_parse (JSON_stringify cs) = Some (json_of_conversations cs)"
proof -
  have "prints (JSON_stringify cs) (json_of_conversations cs)"
    unfolding JSON_stringify_def json_of_conversations_def
    by (rule prints_array) (rule prints_conversation)
  then have p: "parse_value (JSON_stringify cs @ []) = Some (json_of_conversations cs, [])"
    unfolding prints_def by blast
  have "skip_space (JSON_stringify cs) = JSON_stringify cs"
    by (simp add: JSON_stringify_def SerializeJSONArray_def punct_not_space)
  with p show ?thesis by (simp add: JSON_parse_def)
qed

lemma JSON_stringify_nonempty: "JSON_stringify cs \<noteq> []"
  by (simp add: JSON_stringify_def SerializeJSONArray_def)

lemma message_of_json_of_message: "message_of_json (json_of_message m) = Some m"
  by (simp add: message_of_json_def json_of_message_def the_string_def)

lemma those_map_Some: "(\<And>x. f (g x) = Some x) \<Longrightarrow> those (map (f \<circ> g) xs) = Some xs"
  by (induction xs) simp_all

lemma conversation_of_json_of_conversation:
  "conversation_of_json (json_of_conversation c) = Some c"
  by (simp add: conversation_of_json_def json_of_conversation_def the_string_def the_messages_def
      those_map_Some [of message_of_json json_of_message, OF message_of_json_of_message])

lemma conversations_of_json_of_conversations:
  "conversations_of_json (json_of_conversations cs) = Some cs"
  by (simp add: conversations_of_json_def json_of_conversations_def
      those_map_Some [of conversation_of_json json_of_conversation, OF conversation_of_json_of_conversation])

lemma loadConversations_saved:
  "storage st = Some (JSON_stringify cs) \<Longrightarrow> loadConversations st = Stored (st\<lparr>conversations := cs\<rparr>)"
  by (simp add: loadConversations_def JSON_stringify_nonempty JSON_parse_stringify
      conversations_of_json_of_conversations)

subsection \<open>JSON.parse consumes its input\<close>

text \<open>
  Every result of the parser leaves a rest shorter than its input. So the comparisons of
  lengths in \<open>parse_elements\<close> and \<open>parse_members\<close> never fail, and the two functions
  satisfy the equations of the recursive descent without them.
\<close>

lemma cons_unit_Some:
  "cons_unit c res = Some (s, rest) \<Longrightarrow> \<exists>s'. res = Some (s', rest)"
  by (auto simp: cons_unit_def split: option.splits)

lemma parse_chars_consumes: "parse_chars s = Some (x, rest) \<Longrightarrow> length rest < length s"
proof (induction s arbitrary: x rule: parse_chars.induct)
  case 1
  then show ?case by (simp add: parse_chars.simps)
next
  case (2 c cs)
  show ?case
  proof (cases "c = 0x22")
    case True
    with 2(4) show ?thesis by (simp add: parse_chars.simps)
  next
    case q: False
    show ?thesis
    proof (cases "c = 0x5C")
      case True
      show ?thesis
      proof (cases cs)
        case Nil
        with 2(4) q True show ?thesis by (simp add: parse_chars.simps)
      next
        case (Cons e es)
        show ?thesis
        proof (cases "e = 0x75")
          case u: True
          show ?thesis
          proof (cases es)
            case Nil
            with 2(4) q True Cons u show ?thesis by (simp add: parse_chars.simps)
          next
            case l1: (Cons h1 t1)
            show ?thesis
            proof (cases t1)
              case Nil
              with 2(4) q True Cons u l1 show ?thesis by (simp add: parse_chars.simps)
            next
              case l2: (Cons h2 t2)
              show ?thesis
              proof (cases t2)
                case Nil
                with 2(4) q True Cons u l1 l2 show ?thesis by (simp add: parse_chars.simps)
              next
                case l3: (Cons h3 t3)
                show ?thesis
                proof (cases t3)
                  case Nil
                  with 2(4) q True Cons u l1 l2 l3 show ?thesis by (simp add: parse_chars.simps)
                next
                  case l4: (Cons h4 t4)
                  from 2(4) q True Cons u l1 l2 l3 l4
                  obtain w where w: "hex4 h1 h2 h3 h4 = Some w"
                    and r: "cons_unit w (parse_chars t4) = Some (x, rest)"
                    by (auto simp: parse_chars.simps split: option.splits)
                  from r obtain s' where "parse_chars t4 = Some (s', rest)"
                    using cons_unit_Some by blast
                  then have "length rest < length t4"
                    using 2(1) q True Cons u l1 l2 l3 l4 w by blast
                  then show ?thesis using Cons l1 l2 l3 l4 by simp
                qed
              qed
            qed
          qed
        next
          case nu: False
          from 2(4) q True Cons nu
          obtain w where w: "unescape e = Some w"
            and r: "cons_unit w (parse_chars es) = Some (x, rest)"
            by (auto simp: parse_chars.simps split: option.splits)
          from r obtain s' where "parse_chars es = Some (s', rest)"
            using cons_unit_Some by blast
          then have "length rest < length es"
            using 2(2) q True Cons nu w by blast
          then show ?thesis using Cons by simp
        qed
      qed
    next
      case b: False
      with 2(4) q have r: "cons_unit c (parse_chars cs) = Some (x, rest)" and ge: "\<not> c < 0x20"
        by (auto simp: parse_chars.simps split: if_splits)
      from r obtain s' where "parse_chars cs = Some (s', rest)"
        using cons_unit_Some by blast
      then have "length rest < length cs" using 2(3) q b ge by blast
      then show ?thesis by simp
    qed
  qed
qed

lemma length_dropWhile: "length (dropWhile P xs) \<le> length xs"
  by (induction xs) auto

lemma parse_exponent_consumes:
  "parse_exponent lexeme s = Some (l, rest) \<Longrightarrow> length rest \<le> length s"
proof (cases s)
  case Nil
  assume "parse_exponent lexeme s = Some (l, rest)"
  with Nil show ?thesis by (simp add: parse_exponent_def)
next
  case (Cons e t)
  assume a: "parse_exponent lexeme s = Some (l, rest)"
  show ?thesis
  proof (cases "e = 0x65 \<or> e = 0x45")
    case False
    with a Cons show ?thesis by (auto simp: parse_exponent_def)
  next
    case True
    with a Cons obtain k where "rest = dropWhile is_digit (drop k t)"
      by (auto simp: parse_exponent_def Let_def split: if_splits)
    then have "length rest \<le> length (drop k t)" using length_dropWhile [of is_digit "drop k t"] by simp
    then show ?thesis using Cons by simp
  qed
qed

lemma parse_fraction_consumes:
  "parse_fraction lexeme s = Some (l, rest) \<Longrightarrow> length rest \<le> length s"
proof (cases s)
  case Nil
  assume "parse_fraction lexeme s = Some (l, rest)"
  with Nil show ?thesis by (simp add: parse_fraction_def)
next
  case (Cons p t)
  assume a: "parse_fraction lexeme s = Some (l, rest)"
  show ?thesis
  proof (cases "p = 0x2E")
    case False
    with a Cons have "parse_exponent lexeme s = Some (l, rest)"
      by (simp add: parse_fraction_def)
    then show ?thesis by (rule parse_exponent_consumes)
  next
    case True
    with a Cons obtain lex' where "parse_exponent lex' (dropWhile is_digit t) = Some (l, rest)"
      by (auto simp: parse_fraction_def Let_def split: if_splits)
    then have "length rest \<le> length (dropWhile is_digit t)" by (rule parse_exponent_consumes)
    then show ?thesis using Cons length_dropWhile [of is_digit t] by simp
  qed
qed

lemma parse_number_consumes:
  assumes "parse_number s = Some (l, rest)"
  shows "length rest < length s"
proof -
  define sign where "sign = (case s of [] \<Rightarrow> [] | g # u \<Rightarrow> if g = 0x2D then [g] else [])"
  from assms obtain d ds where s1: "drop (length sign) s = d # ds"
    by (auto simp: parse_number_def Let_def sign_def split: list.splits)
  from assms s1 have "(\<exists>lex. parse_fraction lex ds = Some (l, rest))
      \<or> (\<exists>lex. parse_fraction lex (dropWhile is_digit ds) = Some (l, rest))"
    by (auto simp: parse_number_def Let_def sign_def split: if_splits)
  then have "length rest \<le> length ds"
    using parse_fraction_consumes length_dropWhile [of is_digit ds] by (metis le_trans)
  moreover have "length ds < length s"
  proof -
    have "length (drop (length sign) s) \<le> length s" by simp
    with s1 show ?thesis by simp
  qed
  ultimately show ?thesis by simp
qed

lemma parse_consumes:
  "(\<forall>v rest. parse_value s = Some (v, rest) \<longrightarrow> length rest < length s)"
  "(\<forall>vs rest. parse_elements s' = Some (vs, rest) \<longrightarrow> length rest < length s')"
  "(\<forall>ms rest. parse_members s'' = Some (ms, rest) \<longrightarrow> length rest < length s'')"
proof (induction s and s' and s'' rule: parse_value_parse_elements_parse_members.induct)
  case 1
  show ?case by (simp add: parse_value.simps)
next
  case (2 c cs)
  show ?case
  proof (intro allI impI)
    fix v rest assume a: "parse_value (c # cs) = Some (v, rest)"
    consider "c = 0x22" | "c \<noteq> 0x22" "c = 0x5B" | "c \<noteq> 0x22" "c \<noteq> 0x5B" "c = 0x7B"
      | "c \<noteq> 0x22" "c \<noteq> 0x5B" "c \<noteq> 0x7B" by blast
    then show "length rest < length (c # cs)"
    proof cases
      case 1
      with a obtain str where "parse_chars cs = Some (str, rest)"
        by (auto simp: parse_value.simps split: option.splits)
      then have "length rest < length cs" by (rule parse_chars_consumes)
      then show ?thesis by simp
    next
      case 2
      with a obtain d ds where sk: "skip_space cs = d # ds"
        by (auto simp: parse_value.simps split: list.splits)
      then have lds: "length ds < length cs" by (rule skip_space_Cons_length)
      show ?thesis
      proof (cases "d = 0x5D")
        case True
        with a 2 sk have "rest = ds" by (simp add: parse_value.simps)
        with lds show ?thesis by simp
      next
        case False
        with a 2 sk obtain vs where "parse_elements (d # ds) = Some (vs, rest)"
          by (auto simp: parse_value.simps split: option.splits)
        then have "length rest < length (d # ds)"
          using "2.IH"(1) 2 sk False by blast
        with lds show ?thesis by simp
      qed
    next
      case 3
      with a obtain d ds where sk: "skip_space cs = d # ds"
        by (auto simp: parse_value.simps split: list.splits)
      then have lds: "length ds < length cs" by (rule skip_space_Cons_length)
      show ?thesis
      proof (cases "d = 0x7D")
        case True
        with a 3 sk have "rest = ds" by (simp add: parse_value.simps)
        with lds show ?thesis by simp
      next
        case False
        with a 3 sk obtain ms where "parse_members (d # ds) = Some (ms, rest)"
          by (auto simp: parse_value.simps split: option.splits)
        then have "length rest < length (d # ds)"
          using "2.IH"(2) 3 sk False by blast
        with lds show ?thesis by simp
      qed
    next
      case 4
      with a have "rest = drop 4 (c # cs) \<or> rest = drop 5 (c # cs)
          \<or> (\<exists>l. parse_number (c # cs) = Some (l, rest))"
        by (auto simp: parse_value.simps split: if_splits option.splits)
      then show ?thesis using parse_number_consumes [of "c # cs" _ rest] by auto
    qed
  qed
next
  case (3 s)
  show ?case
  proof (intro allI impI)
    fix vs r assume a: "parse_elements s = Some (vs, r)"
    from a obtain v rest where pv: "parse_value s = Some (v, rest)"
      by (subst (asm) parse_elements.simps) (auto split: option.splits)
    from a pv have g: "length rest < length s"
      by (subst (asm) parse_elements.simps) (auto split: if_splits)
    from a pv g obtain d ds where sk: "skip_space rest = d # ds"
      by (subst (asm) parse_elements.simps) (auto split: list.splits)
    have lds: "length ds < length rest" using sk by (rule skip_space_Cons_length)
    show "length r < length s"
    proof (cases "d = 0x5D")
      case True
      with a pv g sk have "r = ds" by (subst (asm) parse_elements.simps) simp
      with lds g show ?thesis by simp
    next
      case False
      with a pv g sk have c: "d = 0x2C"
        by (subst (asm) parse_elements.simps) (auto split: if_splits)
      with a pv g sk False obtain vs' where "parse_elements (skip_space ds) = Some (vs', r)"
        by (subst (asm) parse_elements.simps) (auto split: option.splits)
      then have "length r < length (skip_space ds)"
        using "3.IH"(2) [OF pv refl g sk False c] by blast
      with length_skip_space [of ds] lds g show ?thesis by simp
    qed
  qed
next
  case 4
  show ?case by (simp add: parse_members.simps)
next
  case (5 c cs)
  show ?case
  proof (intro allI impI)
    fix ms r assume a: "parse_members (c # cs) = Some (ms, r)"
    from a have q: "c = 0x22"
      by (subst (asm) parse_members.simps) (auto split: if_splits)
    from a q obtain key rest where pc: "parse_chars cs = Some (key, rest)"
      by (subst (asm) parse_members.simps) (auto split: option.splits)
    from a q pc obtain d ds where sk: "skip_space rest = d # ds"
      by (subst (asm) parse_members.simps) (auto split: list.splits)
    from a q pc sk have g1: "d = 0x3A \<and> length ds < length cs"
      by (subst (asm) parse_members.simps) (auto split: if_splits)
    from a q pc sk g1 obtain v rest' where pv: "parse_value (skip_space ds) = Some (v, rest')"
      by (subst (asm) parse_members.simps) (auto split: option.splits)
    from a q pc sk g1 pv have g2: "length rest' < length cs"
      by (subst (asm) parse_members.simps) (auto split: if_splits)
    from a q pc sk g1 pv g2 obtain e es where sk2: "skip_space rest' = e # es"
      by (subst (asm) parse_members.simps) (auto split: list.splits)
    have les: "length es < length rest'" using sk2 by (rule skip_space_Cons_length)
    show "length r < length (c # cs)"
    proof (cases "e = 0x7D")
      case True
      with a q pc sk g1 pv g2 sk2 have "r = es" by (subst (asm) parse_members.simps) simp
      with les g2 show ?thesis by simp
    next
      case False
      with a q pc sk g1 pv g2 sk2 have c2: "e = 0x2C"
        by (subst (asm) parse_members.simps) (auto split: if_splits)
      with a q pc sk g1 pv g2 sk2 False obtain ms' where
        "parse_members (skip_space es) = Some (ms', r)"
        by (subst (asm) parse_members.simps) (auto split: option.splits)
      then have "length r < length (skip_space es)"
        using "5.IH"(2) [OF q pc refl sk g1 pv refl g2 sk2 False c2] by blast
      with length_skip_space [of es] les g2 show ?thesis by simp
    qed
  qed
qed

lemma parse_elements_unguarded:
  "parse_elements s =
     (case parse_value s of
        None \<Rightarrow> None
      | Some (v, rest) \<Rightarrow>
          (case skip_space rest of
             [] \<Rightarrow> None
           | d # ds \<Rightarrow>
               if d = 0x5D then Some ([v], ds)
               else if d = 0x2C then
                 (case parse_elements (skip_space ds) of
                    None \<Rightarrow> None
                  | Some (vs, rest') \<Rightarrow> Some (v # vs, rest'))
               else None))"
proof (cases "parse_value s")
  case None
  then show ?thesis by (subst parse_elements.simps) simp
next
  case (Some vr)
  obtain v rest where vr: "vr = (v, rest)" by (cases vr)
  have "length rest < length s"
    using parse_consumes(1) [of s] Some vr by blast
  with Some vr show ?thesis by (subst parse_elements.simps) simp
qed

lemma parse_members_unguarded:
  "parse_members (c # cs) =
     (if c = 0x22 then
        (case parse_chars cs of
           None \<Rightarrow> None
         | Some (key, rest) \<Rightarrow>
             (case skip_space rest of
                [] \<Rightarrow> None
              | d # ds \<Rightarrow>
                  if d = 0x3A then
                    (case parse_value (skip_space ds) of
                       None \<Rightarrow> None
                     | Some (v, rest') \<Rightarrow>
                         (case skip_space rest' of
                            [] \<Rightarrow> None
                          | e # es \<Rightarrow>
                              if e = 0x7D then Some ([(key, v)], es)
                              else if e = 0x2C then
                                (case parse_members (skip_space es) of
                                   None \<Rightarrow> None
                                 | Some (ms, rest'') \<Rightarrow> Some ((key, v) # ms, rest''))
                              else None))
                  else None))
      else None)"
proof (cases "c = 0x22")
  case False
  then show ?thesis by (subst parse_members.simps) simp
next
  case q: True
  show ?thesis
  proof (cases "parse_chars cs")
    case None
    with q show ?thesis by (subst parse_members.simps) simp
  next
    case (Some kr)
    obtain key rest where kr: "kr = (key, rest)" by (cases kr)
    have l1: "length rest < length cs"
      using Some kr parse_chars_consumes by simp
    show ?thesis
    proof (cases "skip_space rest")
      case Nil
      with q Some kr show ?thesis by (subst parse_members.simps) simp
    next
      case (Cons d ds)
      have g1: "length ds < length cs"
        using skip_space_Cons_length [OF Cons] l1 by simp
      show ?thesis
      proof (cases "parse_value (skip_space ds)")
        case None
        with q Some kr Cons show ?thesis by (subst parse_members.simps) simp
      next
        case pv: (Some vr)
        obtain v rest' where vr: "vr = (v, rest')" by (cases vr)
        have "length rest' < length (skip_space ds)"
          using parse_consumes(1) [of "skip_space ds"] pv vr by blast
        then have g2: "length rest' < length cs"
          using g1 length_skip_space [of ds] by simp
        from q Some kr Cons g1 pv vr g2 show ?thesis
          by (subst parse_members.simps) simp
      qed
    qed
  qed
qed

subsection \<open>Loading and saving\<close>

lemma loadConversations_absent:
  "storage st = None \<or> storage st = Some [] \<Longrightarrow> loadConversations st = Stored (st\<lparr>conversations := []\<rparr>)"
  by (auto simp: loadConversations_def)

lemma loadConversations_unparseable:
  "storage st = Some saved \<Longrightarrow> saved \<noteq> [] \<Longrightarrow> JSON_parse saved = None \<Longrightarrow>
   loadConversations st = Threw SyntaxError"
  by (simp add: loadConversations_def)

text \<open>
  Claim C2, as amended. \<^verbatim>\<open>loadConversations\<close> sets the empty list, and raises nothing, when
  the item is absent or is the empty string. When the item is a non-empty string that
  \<^verbatim>\<open>JSON.parse\<close> rejects, the \<^verbatim>\<open>SyntaxError\<close> is not caught: the method raises it,
  and so does its caller \<^verbatim>\<open>init\<close>.
\<close>
theorem loadConversations_absent_or_unparseable:
  "(storage st = None \<or> storage st = Some [] \<longrightarrow>
      loadConversations st = Stored (st\<lparr>conversations := []\<rparr>))
   \<and> (\<forall>saved. storage st = Some saved \<and> saved \<noteq> [] \<and> JSON_parse saved = None \<longrightarrow>
         loadConversations st = Threw SyntaxError \<and> init now stamp st = Threw SyntaxError)"
  using loadConversations_absent [of st] loadConversations_unparseable [of st]
  by (auto simp: init_def)

lemma truncated_item: "JSON_parse (js ''[{'' @ [0x22] @ js ''id'' @ [0x22] @ js '':'') = None"
  by (simp add: JSON_parse_def js_def parse_value.simps parse_elements.simps parse_members.simps
      parse_chars.simps is_json_space_def cons_unit_def)

theorem loadConversations_absent_or_unparseable_witness:
  "storage (store_of [] None\<lparr>storage := None\<rparr>) = None
   \<and> loadConversations (store_of [] None\<lparr>storage := None\<rparr>)
       = Stored (store_of [] None\<lparr>storage := None, conversations := []\<rparr>)
   \<and> storage (store_of [] None\<lparr>storage := Some (js ''[{'' @ [0x22] @ js ''id'' @ [0x22] @ js '':'')\<rparr>)
       = Some (js ''[{'' @ [0x22] @ js ''id'' @ [0x22] @ js '':'')
   \<and> js ''[{'' @ [0x22] @ js ''id'' @ [0x22] @ js '':'' \<noteq> []
   \<and> JSON_parse (js ''[{'' @ [0x22] @ js ''id'' @ [0x22] @ js '':'') = None
   \<and> init 1700000000000 (js ''2023-11-14T22:13:20.000Z'')
         (store_of [] None\<lparr>storage := Some (js ''[{'' @ [0x22] @ js ''id'' @ [0x22] @ js '':'')\<rparr>)
       = Threw SyntaxError"
proof -
  have a: "storage (store_of [] None\<lparr>storage := None\<rparr>) = None" by simp
  have b: "storage (store_of [] None\<lparr>storage := Some (js ''[{'' @ [0x22] @ js ''id'' @ [0x22] @ js '':'')\<rparr>)
       = Some (js ''[{'' @ [0x22] @ js ''id'' @ [0x22] @ js '':'')" by simp
  have c: "js ''[{'' @ [0x22] @ js ''id'' @ [0x22] @ js '':'' \<noteq> []" by (simp add: js_def)
  have l: "loadConversations (store_of [] None\<lparr>storage := None\<rparr>)
       = Stored (store_of [] None\<lparr>storage := None, conversations := []\<rparr>)"
    using loadConversations_absent_or_unparseable [of "store_of [] None\<lparr>storage := None\<rparr>"] a
    by blast
  have i: "init 1700000000000 (js ''2023-11-14T22:13:20.000Z'')
         (store_of [] None\<lparr>storage := Some (js ''[{'' @ [0x22] @ js ''id'' @ [0x22] @ js '':'')\<rparr>)
       = Threw SyntaxError"
    using loadConversations_absent_or_unparseable
      [of "store_of [] None\<lparr>storage := Some (js ''[{'' @ [0x22] @ js ''id'' @ [0x22] @ js '':'')\<rparr>"
        1700000000000 "js ''2023-11-14T22:13:20.000Z''"] b c truncated_item
    by blast
  from a b c l i truncated_item show ?thesis by blast
qed

text \<open>
  The claim as stated fails on an item cut short: the load raises instead of yielding
  the empty list.
\<close>
theorem loadConversations_raises_counterexample:
  "loadConversations (store_of [] None\<lparr>storage := Some (js ''[{'' @ [0x22] @ js ''id'' @ [0x22] @ js '':'')\<rparr>)
     = Threw SyntaxError"
  using truncated_item by (simp add: loadConversations_def js_def)


subsection \<open>JSON.stringify on a parsed value is read back\<close>

lemma prints_null: "prints (js ''null'') JNull"
  by (simp add: prints_def js_def parse_value.simps is_json_space_def)

lemma prints_true: "prints (js ''true'') (JBool True)"
  by (simp add: prints_def js_def parse_value.simps is_json_space_def)

lemma prints_false: "prints (js ''false'') (JBool False)"
  by (simp add: prints_def js_def parse_value.simps is_json_space_def)

lemma join_members_start:
  "\<exists>t. join_comma (map (\<lambda>kv. member (fst kv) (pr (snd kv))) (m # ms)) @ r = 0x22 # t"
  by (cases ms) (simp_all add: member_Cons)

lemma parse_members_join:
  assumes "\<And>kv. kv \<in> set (m0 # ms) \<Longrightarrow> prints (pr (snd kv)) (snd kv)"
  shows "parse_members (join_comma (map (\<lambda>kv. member (fst kv) (pr (snd kv))) (m0 # ms)) @ 0x7D # rest)
           = Some (m0 # ms, rest)"
  using assms
proof (induction ms arbitrary: m0)
  case Nil
  then have "prints (pr (snd m0)) (snd m0)" by simp
  then have "parse_members (member (fst m0) (pr (snd m0)) @ 0x7D # rest)
               = Some ([(fst m0, snd m0)], rest)"
    by (rule parse_members_last)
  then show ?case by simp
next
  case (Cons m1 ms)
  then have p: "prints (pr (snd m0)) (snd m0)" by simp
  have ih: "parse_members (join_comma (map (\<lambda>kv. member (fst kv) (pr (snd kv))) (m1 # ms)) @ 0x7D # rest)
              = Some (m1 # ms, rest)"
    using Cons.prems by (intro Cons.IH) simp
  obtain t where t: "join_comma (map (\<lambda>kv. member (fst kv) (pr (snd kv))) (m1 # ms)) @ 0x7D # rest
                       = 0x22 # t"
    using join_members_start by blast
  have "parse_members (member (fst m0) (pr (snd m0)) @ 0x2C # 0x22 # t)
          = (case parse_members (0x22 # t) of
               None \<Rightarrow> None
             | Some (ms', rest') \<Rightarrow> Some ((fst m0, snd m0) # ms', rest'))"
    using p by (rule parse_members_more)
  then have "parse_members (member (fst m0) (pr (snd m0)) @ 0x2C # 0x22 # t) = Some (m0 # m1 # ms, rest)"
    using ih t by simp
  moreover have "join_comma (map (\<lambda>kv. member (fst kv) (pr (snd kv))) (m0 # m1 # ms)) @ 0x7D # rest
      = member (fst m0) (pr (snd m0)) @ 0x2C # 0x22 # t"
    using t by simp
  ultimately show ?case by simp
qed

lemma prints_object:
  assumes "\<And>kv. kv \<in> set ms \<Longrightarrow> prints (pr (snd kv)) (snd kv)"
  shows "prints (SerializeJSONObject (map (\<lambda>kv. member (fst kv) (pr (snd kv))) ms)) (JObject ms)"
proof (cases ms)
  case Nil
  then show ?thesis
    by (simp add: prints_def SerializeJSONObject_def parse_value.simps punct_not_space)
next
  case (Cons m0 ms')
  have "parse_value (SerializeJSONObject (map (\<lambda>kv. member (fst kv) (pr (snd kv))) (m0 # ms')) @ rest)
          = Some (JObject (m0 # ms'), rest)" for rest
  proof -
    obtain t where t: "join_comma (map (\<lambda>kv. member (fst kv) (pr (snd kv))) (m0 # ms')) @ 0x7D # rest
                       = 0x22 # t"
      using join_members_start by blast
    have pm: "parse_members (0x22 # t) = Some (m0 # ms', rest)"
      using parse_members_join [of m0 ms' pr rest] assms Cons t by simp
    have s: "SerializeJSONObject (map (\<lambda>kv. member (fst kv) (pr (snd kv))) (m0 # ms')) @ rest
               = 0x7B # 0x22 # t"
      using t by (simp add: SerializeJSONObject_def)
    show ?thesis
      unfolding s
      by (subst parse_value.simps) (simp add: punct_not_space pm)
  qed
  then show ?thesis
    unfolding prints_def Cons by (simp add: SerializeJSONObject_def punct_not_space)
qed

lemma prints_value: "plain v \<Longrightarrow> prints (stringify_value v) v"
proof (induction v)
  case JNull
  show ?case by (simp add: prints_null)
next
  case (JBool b)
  show ?case by (cases b) (simp_all add: prints_true prints_false)
next
  case (JNumber n)
  then show ?case by simp
next
  case (JString s)
  show ?case by (simp add: prints_string)
next
  case (JArray vs)
  have "\<And>v. v \<in> set vs \<Longrightarrow> prints (stringify_value v) v"
    using JArray by (simp add: list_all_iff)
  then have "prints (SerializeJSONArray (map stringify_value vs)) (JArray (map (\<lambda>v. v) vs))"
    by (rule prints_array)
  then show ?case by simp
next
  case (JObject ms)
  have "\<And>kv. kv \<in> set ms \<Longrightarrow> prints (stringify_value (snd kv)) (snd kv)"
  proof -
    fix kv assume kv: "kv \<in> set ms"
    then have "plain (snd kv)" using JObject.prems by (simp add: list_all_iff)
    moreover have "snd kv \<in> Basic_BNFs.snds kv" by (cases kv) simp
    ultimately show "prints (stringify_value (snd kv)) (snd kv)"
      using JObject.IH kv by blast
  qed
  then have "prints (SerializeJSONObject (map (\<lambda>kv. member (fst kv) (stringify_value (snd kv))) ms))
               (JObject ms)"
    by (rule prints_object)
  then show ?case by simp
qed

lemma stringify_value_nonempty: "plain v \<Longrightarrow> stringify_value v \<noteq> []"
  using prints_value [of v] by (auto simp: prints_def)

lemma JSON_parse_stringify_value: "plain v \<Longrightarrow> JSON_parse (stringify_value v) = Some v"
proof -
  assume "plain v"
  then have p: "prints (stringify_value v) v" by (rule prints_value)
  then obtain c t where ct: "stringify_value v = c # t" "\<not> is_json_space c"
    unfolding prints_def by blast
  from p have "parse_value (stringify_value v @ []) = Some (v, [])"
    unfolding prints_def by blast
  then show ?thesis using ct by (simp add: JSON_parse_def)
qed

lemma stringify_json_of_message: "stringify_value (json_of_message m) = stringify_message m"
  by (simp add: json_of_message_def stringify_message_def)

lemma stringify_json_of_conversation:
  "stringify_value (json_of_conversation c) = stringify_conversation c"
  by (simp add: json_of_conversation_def stringify_conversation_def stringify_json_of_message
      comp_def)

lemma stringify_json_of_conversations:
  "stringify_value (json_of_conversations cs) = JSON_stringify cs"
  by (simp add: json_of_conversations_def JSON_stringify_def stringify_json_of_conversation
      comp_def)

subsection \<open>A load, a save and a load\<close>

lemma the_string_Some: "the_string j = Some s \<Longrightarrow> j = JString s"
  by (cases j) (simp_all add: the_string_def)

lemma message_of_json_exact: "message_of_json j = Some m \<Longrightarrow> j = json_of_message m"
proof -
  assume a: "message_of_json j = Some m"
  then obtain ms where j: "j = JObject ms" by (cases j) (simp_all add: message_of_json_def)
  from a j have keys: "map fst ms = [js ''content'', js ''type'', js ''timestamp'']"
    by (simp add: message_of_json_def split: if_splits)
  then obtain v1 v2 v3 where ms: "ms = [(js ''content'', v1), (js ''type'', v2), (js ''timestamp'', v3)]"
    by (auto simp: map_eq_Cons_conv)
  from a j ms obtain c t s where vs: "the_string v1 = Some c" "the_string v2 = Some t"
      "the_string v3 = Some s" and m: "m = \<lparr>content = c, type = t, timestamp = s\<rparr>"
    by (auto simp: message_of_json_def split: option.splits)
  show ?thesis
    using vs [THEN the_string_Some] by (simp add: j ms m json_of_message_def)
qed

lemma those_map_exact:
  "(\<And>x y. f x = Some y \<Longrightarrow> x = g y) \<Longrightarrow> those (map f xs) = Some ys \<Longrightarrow> xs = map g ys"
proof (induction xs arbitrary: ys)
  case Nil
  then show ?case by simp
next
  case (Cons x xs)
  from Cons.prems(2) obtain y ys' where fx: "f x = Some y" and r: "those (map f xs) = Some ys'"
    and ys: "ys = y # ys'"
    by (auto split: option.splits)
  have "x = g y" using Cons.prems(1) fx by blast
  moreover have "xs = map g ys'" using Cons.IH Cons.prems(1) r by blast
  ultimately show ?case using ys by simp
qed

lemma the_messages_exact: "the_messages j = Some ml \<Longrightarrow> j = JArray (map json_of_message ml)"
proof -
  assume a: "the_messages j = Some ml"
  then obtain vs where j: "j = JArray vs" by (cases j) (simp_all add: the_messages_def)
  with a have "those (map message_of_json vs) = Some ml" by (simp add: the_messages_def)
  then have "vs = map json_of_message ml"
    using those_map_exact [of message_of_json json_of_message] message_of_json_exact by blast
  with j show ?thesis by simp
qed

lemma conversation_of_json_exact:
  "conversation_of_json j = Some c \<Longrightarrow> j = json_of_conversation c"
proof -
  assume a: "conversation_of_json j = Some c"
  then obtain ms where j: "j = JObject ms" by (cases j) (simp_all add: conversation_of_json_def)
  from a j have keys: "map fst ms = [js ''id'', js ''title'', js ''messages'', js ''createdAt'']"
    by (simp add: conversation_of_json_def split: if_splits)
  then obtain v1 v2 v3 v4 where ms: "ms = [(js ''id'', v1), (js ''title'', v2),
      (js ''messages'', v3), (js ''createdAt'', v4)]"
    by (auto simp: map_eq_Cons_conv)
  from a j ms obtain i t ml ca where vs: "the_string v1 = Some i" "the_string v2 = Some t"
      "the_messages v3 = Some ml" "the_string v4 = Some ca"
    and c: "c = \<lparr>id_c = i, title = t, messages = ml, createdAt = ca\<rparr>"
    by (auto simp: conversation_of_json_def split: option.splits)
  show ?thesis
    using vs(1,2,4) [THEN the_string_Some] vs(3) [THEN the_messages_exact]
    by (simp add: j ms c json_of_conversation_def)
qed

lemma conversations_of_json_exact:
  "conversations_of_json j = Some cs \<Longrightarrow> j = json_of_conversations cs"
proof -
  assume a: "conversations_of_json j = Some cs"
  then obtain vs where j: "j = JArray vs" by (cases j) (simp_all add: conversations_of_json_def)
  with a have "those (map conversation_of_json vs) = Some cs"
    by (simp add: conversations_of_json_def)
  then have "vs = map json_of_conversation cs"
    using those_map_exact [of conversation_of_json json_of_conversation]
      conversation_of_json_exact by blast
  with j show ?thesis by (simp add: json_of_conversations_def)
qed

lemma renders_json_of_conversations:
  "\<not> renderConversationList_raises (json_of_conversations cs)"
  by (simp add: renderConversationList_raises_def json_of_conversations_def list_ex_iff
      raises_on_element_def json_of_conversation_def property_def js_def)

text \<open>The rendering goes through on every value that is a conversation list of the model.\<close>

lemma decoded_renders:
  "conversations_of_json j = Some cs \<Longrightarrow> \<not> renderConversationList_raises j"
  using conversations_of_json_exact renders_json_of_conversations by blast

lemma loadConversations_Stored:
  "loadConversations st = Stored st1 \<Longrightarrow> \<exists>cs. st1 = st\<lparr>conversations := cs\<rparr>"
  by (auto simp: loadConversations_def split: option.splits if_splits)


lemma loadConversations_foreign_text:
  assumes "storage st = Some s" and "s \<noteq> []" and "JSON_parse s = Some v"
    and "conversations_of_json v = None" and "\<not> renderConversationList_raises v"
  shows "loadConversations st = Foreign v"
  using assms by (simp add: loadConversations_def)








subsection \<open>A submission that the resolver fails\<close>

lemma persisted_messages_json_of_conversations:
  "persisted_messages (json_of_conversations cs)
     = concat (map (\<lambda>c. map json_of_message (messages c)) cs)"
  by (simp add: persisted_messages_def json_of_conversations_def elements_def property_def
      json_of_conversation_def js_def comp_def)






subsection \<open>What the page persists\<close>

lemma user_or_assistant_push:
  "t = js ''user'' \<or> t = js ''assistant'' \<Longrightarrow>
   list_all (\<lambda>m. type m = js ''user'' \<or> type m = js ''assistant'') (messages c) \<Longrightarrow>
   list_all (\<lambda>m. type m = js ''user'' \<or> type m = js ''assistant'')
     (messages (push_message x t s c))"
  by (auto simp: push_message_def Let_def)

lemma list_all_update_first:
  "list_all Q xs \<Longrightarrow> (\<And>x. Q x \<Longrightarrow> Q (f x)) \<Longrightarrow> list_all Q (update_first P f xs)"
  by (induction xs) auto

lemma user_or_assistant_save:
  assumes "t = js ''user'' \<or> t = js ''assistant''" and "user_or_assistant st"
  shows "user_or_assistant (saveMessageToConversation x t s st)"
proof (cases "currentConversationId st")
  case None
  with assms(2) show ?thesis by (simp add: saveMessageToConversation_def)
next
  case (Some cur)
  show ?thesis
  proof (cases "findById cur (conversations st)")
    case None
    with Some assms(2) show ?thesis by (simp add: saveMessageToConversation_def)
  next
    case found: (Some c)
    have "list_all (\<lambda>c. list_all (\<lambda>m. type m = js ''user'' \<or> type m = js ''assistant'') (messages c))
            (update_first (\<lambda>c. id_c c = cur) (push_message x t s) (conversations st))"
      using assms(2) user_or_assistant_push [OF assms(1)]
      unfolding user_or_assistant_def by (intro list_all_update_first)
    with Some found show ?thesis
      by (simp add: saveMessageToConversation_def saveConversations_def user_or_assistant_def)
  qed
qed

lemma user_or_assistant_resume:
  "user_or_assistant st \<Longrightarrow> user_or_assistant (sendMessage_resume settled stamp st)"
proof (cases settled)
  case (Inl e)
  assume "user_or_assistant st"
  then show ?thesis
    using Inl by (simp add: user_or_assistant_def sendMessage_resume_rejected(1))
next
  case (Inr response)
  assume u: "user_or_assistant st"
  then have "user_or_assistant (addMessage response (js ''assistant'') False (hideTypingIndicator st))"
    by (simp add: user_or_assistant_def)
  then have "user_or_assistant (saveMessageToConversation response (js ''assistant'') stamp
       (addMessage response (js ''assistant'') False (hideTypingIndicator st)))"
    by (intro user_or_assistant_save) simp_all
  then show ?thesis using Inr by (simp add: sendMessage_resume_def user_or_assistant_def)
qed

lemma user_or_assistant_begin:
  assumes "user_or_assistant st" and "sendMessage_begin stamp st = Some (message, st1)"
  shows "user_or_assistant st1"
proof -
  let ?st2 = "addMessage (trim (chatInput st)) (js ''user'') False (st\<lparr>chatInput := []\<rparr>)"
  have "user_or_assistant ?st2" using assms(1) by (simp add: user_or_assistant_def)
  then have "user_or_assistant (saveMessageToConversation (trim (chatInput st)) (js ''user'') stamp ?st2)"
    by (intro user_or_assistant_save) simp_all
  then show ?thesis
    using assms(2)
    by (auto simp: sendMessage_begin_def Let_def user_or_assistant_def split: if_splits)
qed

lemma user_or_assistant_sendMessage:
  "user_or_assistant st \<Longrightarrow> user_or_assistant (sendMessage resolver stamp1 stamp2 st)"
  by (auto simp: sendMessage_def user_or_assistant_resume user_or_assistant_begin
      split: option.split)

lemma user_or_assistant_submit: "user_or_assistant st \<Longrightarrow> user_or_assistant (submit x st)"
proof -
  assume u: "user_or_assistant st"
  obtain input resolver stamp1 stamp2 where x: "x = (input, resolver, stamp1, stamp2)"
    by (cases x)
  have "user_or_assistant (st\<lparr>chatInput := input\<rparr>)" using u by (simp add: user_or_assistant_def)
  then show ?thesis by (simp add: x submit_def user_or_assistant_sendMessage)
qed

lemma user_or_assistant_create:
  "user_or_assistant st \<Longrightarrow> user_or_assistant (createNewConversation now stamp st)"
  by (simp add: user_or_assistant_def conversations_createNewConversation)

lemma user_or_assistant_delete:
  "user_or_assistant st \<Longrightarrow> user_or_assistant (deleteConversation cid now stamp st)"
  by (auto simp: user_or_assistant_def deleteConversation_conversations list_all_iff)

lemma saved_saveMessageToConversation:
  "storage st = Some (JSON_stringify (conversations st)) \<Longrightarrow>
   storage (saveMessageToConversation x t s st)
     = Some (JSON_stringify (conversations (saveMessageToConversation x t s st)))"
  by (simp add: saveMessageToConversation_def saveConversations_def split: option.split)

lemma saved_createNewConversation:
  "storage (createNewConversation now stamp st)
     = Some (JSON_stringify (conversations (createNewConversation now stamp st)))"
  by (simp add: createNewConversation_def Let_def saveConversations_def)

lemma saved_deleteConversation:
  "storage (deleteConversation cid now stamp st)
     = Some (JSON_stringify (conversations (deleteConversation cid now stamp st)))"
  by (simp add: deleteConversation_def Let_def saveConversations_def saved_createNewConversation
      split: list.split)

lemma saved_resume:
  assumes "storage st = Some (JSON_stringify (conversations st))"
  shows "storage (sendMessage_resume settled stamp st)
     = Some (JSON_stringify (conversations (sendMessage_resume settled stamp st)))"
proof (cases settled)
  case (Inl e)
  with assms show ?thesis by (simp add: sendMessage_resume_rejected)
next
  case (Inr response)
  let ?st1 = "addMessage response (js ''assistant'') False (hideTypingIndicator st)"
  have "storage ?st1 = Some (JSON_stringify (conversations ?st1))" using assms by simp
  then have "storage (saveMessageToConversation response (js ''assistant'') stamp ?st1)
     = Some (JSON_stringify (conversations (saveMessageToConversation response (js ''assistant'') stamp ?st1)))"
    by (rule saved_saveMessageToConversation)
  with Inr show ?thesis by (simp add: sendMessage_resume_def)
qed

lemma saved_begin:
  assumes "storage st = Some (JSON_stringify (conversations st))"
    and "sendMessage_begin stamp st = Some (message, st1)"
  shows "storage st1 = Some (JSON_stringify (conversations st1))"
proof -
  let ?st2 = "addMessage (trim (chatInput st)) (js ''user'') False (st\<lparr>chatInput := []\<rparr>)"
  have "storage ?st2 = Some (JSON_stringify (conversations ?st2))" using assms(1) by simp
  then have "storage (saveMessageToConversation (trim (chatInput st)) (js ''user'') stamp ?st2)
     = Some (JSON_stringify (conversations (saveMessageToConversation (trim (chatInput st)) (js ''user'') stamp ?st2)))"
    by (rule saved_saveMessageToConversation)
  then show ?thesis
    using assms(2) by (auto simp: sendMessage_begin_def Let_def split: if_splits)
qed

lemma init_absent:
  "storage st = None \<or> storage st = Some [] \<Longrightarrow>
   init now stamp st = Stored (createNewConversation now stamp (st\<lparr>conversations := []\<rparr>))"
  by (auto simp: init_def loadConversations_def)

lemma init_saved:
  "storage st = Some (JSON_stringify cs) \<Longrightarrow>
   init now stamp st =
     (case cs of [] \<Rightarrow> Stored (createNewConversation now stamp (st\<lparr>conversations := cs\<rparr>))
      | first # rest \<Rightarrow> Stored (loadConversation (id_c first) (st\<lparr>conversations := cs\<rparr>)))"
  by (simp add: init_def loadConversations_saved split: list.split)

lemma PhyChatApp_absent:
  "\<exists>st. PhyChatApp None now stamp = Stored st \<and> user_or_assistant st
     \<and> storage st = Some (JSON_stringify (conversations st))"
proof -
  let ?page = "\<lparr>conversations = [], currentConversationId = None, isProcessing = False,
        storage = None, chatInput = [], chatMessages = []\<rparr>"
  have "PhyChatApp None now stamp = Stored (createNewConversation now stamp (?page\<lparr>conversations := []\<rparr>))"
    unfolding PhyChatApp_def by (rule init_absent) simp
  moreover have "user_or_assistant (createNewConversation now stamp (?page\<lparr>conversations := []\<rparr>))"
    by (rule user_or_assistant_create) (simp add: user_or_assistant_def)
  ultimately show ?thesis using saved_createNewConversation by blast
qed

lemma PhyChatApp_saved:
  assumes "user_or_assistant st" and "storage st = Some (JSON_stringify (conversations st))"
  shows "\<exists>st'. PhyChatApp (storage st) now stamp = Stored st' \<and> user_or_assistant st'
     \<and> storage st' = Some (JSON_stringify (conversations st'))"
proof -
  let ?page = "\<lparr>conversations = [], currentConversationId = None, isProcessing = False,
        storage = storage st, chatInput = [], chatMessages = []\<rparr>"
  let ?loaded = "?page\<lparr>conversations := conversations st\<rparr>"
  have s: "storage ?page = Some (JSON_stringify (conversations st))" using assms(2) by simp
  have u: "user_or_assistant ?loaded" using assms(1) by (simp add: user_or_assistant_def)
  have sl: "storage ?loaded = Some (JSON_stringify (conversations ?loaded))" using assms(2) by simp
  show ?thesis
  proof (cases "conversations st")
    case Nil
    have "PhyChatApp (storage st) now stamp = Stored (createNewConversation now stamp ?loaded)"
      unfolding PhyChatApp_def using init_saved [OF s, of now stamp] Nil by simp
    moreover have "user_or_assistant (createNewConversation now stamp ?loaded)"
      using u by (rule user_or_assistant_create)
    ultimately show ?thesis using saved_createNewConversation by blast
  next
    case (Cons first rest)
    have "PhyChatApp (storage st) now stamp = Stored (loadConversation (id_c first) ?loaded)"
      unfolding PhyChatApp_def using init_saved [OF s, of now stamp] Cons by simp
    moreover have "user_or_assistant (loadConversation (id_c first) ?loaded)"
      using u by (simp add: user_or_assistant_def)
    moreover have "storage (loadConversation (id_c first) ?loaded)
        = Some (JSON_stringify (conversations (loadConversation (id_c first) ?loaded)))"
      using sl by simp
    ultimately show ?thesis by blast
  qed
qed

lemma step_written:
  assumes u: "user_or_assistant st" and s: "storage st = Some (JSON_stringify (conversations st))"
  shows "\<exists>st'. step e st = Stored st' \<and> user_or_assistant st'
     \<and> storage st' = Some (JSON_stringify (conversations st'))"
proof (cases e)
  case (NewChat now stamp)
  then show ?thesis
    using user_or_assistant_create [OF u] saved_createNewConversation by simp
next
  case (Open cid)
  then show ?thesis using u s by (simp add: user_or_assistant_def)
next
  case (Remove cid now stamp)
  then show ?thesis
    using user_or_assistant_delete [OF u] saved_deleteConversation by simp
next
  case (Ask input stamp)
  let ?typed = "st\<lparr>chatInput := input\<rparr>"
  have ut: "user_or_assistant ?typed" using u by (simp add: user_or_assistant_def)
  have st: "storage ?typed = Some (JSON_stringify (conversations ?typed))" using s by simp
  show ?thesis
  proof (cases "sendMessage_begin stamp ?typed")
    case None
    with Ask ut st show ?thesis by simp
  next
    case (Some r)
    obtain message st1 where r: "r = (message, st1)" by (cases r)
    have "user_or_assistant st1" using ut Some unfolding r by (rule user_or_assistant_begin)
    moreover have "storage st1 = Some (JSON_stringify (conversations st1))"
      using st Some unfolding r by (rule saved_begin)
    ultimately show ?thesis using Ask Some r by simp
  qed
next
  case (Answer settled stamp)
  then show ?thesis
    using user_or_assistant_resume [OF u] saved_resume [OF s] by simp
next
  case (Reload now stamp)
  then show ?thesis using PhyChatApp_saved [OF u s] by simp
qed

lemma run_written:
  "user_or_assistant st \<Longrightarrow> storage st = Some (JSON_stringify (conversations st)) \<Longrightarrow>
   \<exists>st'. run evs (Stored st) = Stored st' \<and> user_or_assistant st'
     \<and> storage st' = Some (JSON_stringify (conversations st'))"
proof (induction evs arbitrary: st)
  case Nil
  then show ?case by simp
next
  case (Cons e evs)
  from step_written [OF Cons.prems] obtain st1 where 1: "step e st = Stored st1"
    and 2: "user_or_assistant st1" and 3: "storage st1 = Some (JSON_stringify (conversations st1))"
    by blast
  from Cons.IH [OF 2 3] 1 show ?case by simp
qed

lemma persisted_records_saved:
  "storage st = Some (JSON_stringify cs) \<Longrightarrow>
   persisted_records st = Some (concat (map (\<lambda>c. map json_of_message (messages c)) cs))"
  by (simp add: persisted_records_def JSON_parse_stringify persisted_messages_json_of_conversations)

text \<open>
  Claim C3, as amended. On a page that found no persisted item, after the constructor
  and any run of events (new chats, switches, deletions, questions, answers and
  failures of the resolver, reloads of the page), the persisted item parses to a value
  in which every message record is an object with exactly the fields \<^verbatim>\<open>content\<close>,
  \<^verbatim>\<open>type\<close> and \<^verbatim>\<open>timestamp\<close>, in this order, each a string, the \<^verbatim>\<open>type\<close> being
  \<^verbatim>\<open>user\<close> or \<^verbatim>\<open>assistant\<close>.
\<close>
theorem persisted_message_fields:
  "\<exists>st rs. run evs (PhyChatApp None now stamp) = Stored st
     \<and> persisted_records st = Some rs
     \<and> (\<forall>m \<in> set rs.
          \<exists>c t s. m = JObject [(js ''content'', JString c), (js ''type'', JString t),
                                (js ''timestamp'', JString s)]
            \<and> (t = js ''user'' \<or> t = js ''assistant''))"
proof -
  obtain st0 where 0: "PhyChatApp None now stamp = Stored st0" and u0: "user_or_assistant st0"
    and s0: "storage st0 = Some (JSON_stringify (conversations st0))"
    using PhyChatApp_absent by blast
  from run_written [OF u0 s0] obtain st where r: "run evs (Stored st0) = Stored st"
    and u: "user_or_assistant st" and s: "storage st = Some (JSON_stringify (conversations st))"
    by blast
  let ?rs = "concat (map (\<lambda>c. map json_of_message (messages c)) (conversations st))"
  have p: "persisted_records st = Some ?rs" using s by (rule persisted_records_saved)
  have "\<exists>c t s. m = JObject [(js ''content'', JString c), (js ''type'', JString t),
                                (js ''timestamp'', JString s)]
            \<and> (t = js ''user'' \<or> t = js ''assistant'')" if "m \<in> set ?rs" for m
  proof -
    from that obtain c msg where c: "c \<in> set (conversations st)" and msg: "msg \<in> set (messages c)"
      and m: "m = json_of_message msg"
      by auto
    have "type msg = js ''user'' \<or> type msg = js ''assistant''"
      using u c msg by (auto simp: user_or_assistant_def list_all_iff)
    then show ?thesis unfolding m json_of_message_def by blast
  qed
  with r p show ?thesis unfolding 0 by blast
qed

lemma conversations_asked:
  "conversations asked =
     [\<lparr>id_c = js ''1700000000000'', title = js ''Explain thermodynamics'',
       messages = [\<lparr>content = js ''Explain thermodynamics'', type = js ''user'',
                    timestamp = js ''2023-11-14T22:13:21.000Z''\<rparr>,
                   \<lparr>content = thermodynamics_response, type = js ''assistant'',
                    timestamp = js ''2023-11-14T22:13:23.000Z''\<rparr>],
       createdAt = js ''2023-11-14T22:13:20.000Z''\<rparr>]"
proof -
  have tr: "trim (js ''Explain thermodynamics'') = js ''Explain thermodynamics''"
    by (simp add: trim_def is_trim_space_def js_def)
  have ne: "js ''Explain thermodynamics'' \<noteq> []" by (simp add: js_def)
  have ai: "getAIResponse (js ''Explain thermodynamics'') = thermodynamics_response"
    by (simp add: getAIResponse_def responses_def toLowerCase_def toLowerCase_unit_def js_def)
  have ua: "js ''assistant'' \<noteq> js ''user''" by (simp add: js_def)
  have len: "length (js ''Explain thermodynamics'') = 22" by (simp add: js_def)
  show ?thesis
    by (simp add: asked_def submit_def sendMessage_def sendMessage_begin_def
        sendMessage_resume_def Let_def store_of_def example_conversation_def
        saveMessageToConversation_def findById_def saveConversations_def push_message_def
        tr ne ai ua len)
qed

lemma run_append: "run (xs @ ys) r = run ys (run xs r)"
proof (induction xs arbitrary: r)
  case Nil
  show ?case by simp
next
  case (Cons e es)
  show ?case
  proof (cases r)
    case (Stored st)
    then show ?thesis using Cons.IH by simp
  next
    case (Threw x)
    then show ?thesis by (induction ys) simp_all
  next
    case (Foreign v)
    then show ?thesis by (induction ys) simp_all
  qed
qed

lemma PhyChatApp_reload:
  assumes "storage st = Some (JSON_stringify (first # rest))"
  shows "\<exists>st'. PhyChatApp (storage st) now stamp = Stored st'
     \<and> conversations st' = first # rest \<and> storage st' = storage st"
proof -
  let ?page = "\<lparr>conversations = [], currentConversationId = None, isProcessing = False,
        storage = storage st, chatInput = [], chatMessages = []\<rparr>"
  have s: "storage ?page = Some (JSON_stringify (first # rest))" using assms by simp
  have "PhyChatApp (storage st) now stamp
      = Stored (loadConversation (id_c first) (?page\<lparr>conversations := first # rest\<rparr>))"
    unfolding PhyChatApp_def using init_saved [OF s, of now stamp] by simp
  then show ?thesis by simp
qed

lemma asked_run:
  "\<exists>st. run [Ask (js ''Explain thermodynamics'') (js ''2023-11-14T22:13:21.000Z''),
             Answer (Inr (getAIResponse (js ''Explain thermodynamics''))) (js ''2023-11-14T22:13:23.000Z'')]
          (PhyChatApp None 1700000000000 (js ''2023-11-14T22:13:20.000Z'')) = Stored st
     \<and> conversations st =
         [\<lparr>id_c = toString 1700000000000, title = js ''Explain thermodynamics'',
           messages = [\<lparr>content = js ''Explain thermodynamics'', type = js ''user'',
                        timestamp = js ''2023-11-14T22:13:21.000Z''\<rparr>,
                       \<lparr>content = thermodynamics_response, type = js ''assistant'',
                        timestamp = js ''2023-11-14T22:13:23.000Z''\<rparr>],
           createdAt = js ''2023-11-14T22:13:20.000Z''\<rparr>]
     \<and> storage st = Some (JSON_stringify (conversations st))"
proof -
  have tr: "trim (js ''Explain thermodynamics'') = js ''Explain thermodynamics''"
    by (simp add: trim_def is_trim_space_def js_def)
  have ne: "js ''Explain thermodynamics'' \<noteq> []" by (simp add: js_def)
  have ai: "getAIResponse (js ''Explain thermodynamics'') = thermodynamics_response"
    by (simp add: getAIResponse_def responses_def toLowerCase_def toLowerCase_unit_def js_def)
  have ua: "js ''assistant'' \<noteq> js ''user''" by (simp add: js_def)
  have len: "length (js ''Explain thermodynamics'') = 22" by (simp add: js_def)
  show ?thesis
    by (simp add: PhyChatApp_def init_def loadConversations_def createNewConversation_def
        loadConversation_def showWelcomeScreen_def
        sendMessage_begin_def sendMessage_resume_def Let_def
        saveMessageToConversation_def findById_def saveConversations_def push_message_def
        addMessage_def showTypingIndicator_def hideTypingIndicator_def
        tr ne ai ua len)
qed

theorem persisted_message_fields_witness:
  "\<exists>st. run [Ask (js ''Explain thermodynamics'') (js ''2023-11-14T22:13:21.000Z''),
             Answer (Inr (getAIResponse (js ''Explain thermodynamics''))) (js ''2023-11-14T22:13:23.000Z''),
             Reload 1700000005000 (js ''2023-11-14T22:13:25.000Z'')]
          (PhyChatApp None 1700000000000 (js ''2023-11-14T22:13:20.000Z'')) = Stored st
     \<and> persisted_records st
         = Some [JObject [(js ''content'', JString (js ''Explain thermodynamics'')),
                          (js ''type'', JString (js ''user'')),
                          (js ''timestamp'', JString (js ''2023-11-14T22:13:21.000Z''))],
                 JObject [(js ''content'', JString thermodynamics_response),
                          (js ''type'', JString (js ''assistant'')),
                          (js ''timestamp'', JString (js ''2023-11-14T22:13:23.000Z''))]]"
proof -
  let ?ask = "[Ask (js ''Explain thermodynamics'') (js ''2023-11-14T22:13:21.000Z''),
             Answer (Inr (getAIResponse (js ''Explain thermodynamics''))) (js ''2023-11-14T22:13:23.000Z'')]"
  let ?evs = "[Ask (js ''Explain thermodynamics'') (js ''2023-11-14T22:13:21.000Z''),
             Answer (Inr (getAIResponse (js ''Explain thermodynamics''))) (js ''2023-11-14T22:13:23.000Z''),
             Reload 1700000005000 (js ''2023-11-14T22:13:25.000Z'')]"
  let ?page = "PhyChatApp None 1700000000000 (js ''2023-11-14T22:13:20.000Z'')"
  let ?c = "\<lparr>id_c = toString 1700000000000, title = js ''Explain thermodynamics'',
           messages = [\<lparr>content = js ''Explain thermodynamics'', type = js ''user'',
                        timestamp = js ''2023-11-14T22:13:21.000Z''\<rparr>,
                       \<lparr>content = thermodynamics_response, type = js ''assistant'',
                        timestamp = js ''2023-11-14T22:13:23.000Z''\<rparr>],
           createdAt = js ''2023-11-14T22:13:20.000Z''\<rparr>"
  from asked_run obtain st1 where 1: "run ?ask ?page = Stored st1"
    and c1: "conversations st1 = [?c]" and s1: "storage st1 = Some (JSON_stringify (conversations st1))"
    by blast
  from s1 have "storage st1 = Some (JSON_stringify (?c # []))" by (simp only: c1)
  from PhyChatApp_reload [OF this, of 1700000005000 "js ''2023-11-14T22:13:25.000Z''"]
  obtain st2 where 2: "PhyChatApp (storage st1) 1700000005000 (js ''2023-11-14T22:13:25.000Z'') = Stored st2"
    and c2: "conversations st2 = [?c]" and s2: "storage st2 = storage st1"
    by blast
  have evs: "?evs = ?ask @ [Reload 1700000005000 (js ''2023-11-14T22:13:25.000Z'')]"
    by simp
  have r: "run ?evs ?page = Stored st2"
    unfolding evs run_append 1 using 2 by simp
  from persisted_message_fields [of ?evs 1700000000000 "js ''2023-11-14T22:13:20.000Z''"]
  obtain st rs where 3: "run ?evs ?page = Stored st" and 4: "persisted_records st = Some rs"
    by blast
  from 3 r have st: "st = st2" by simp
  have "storage st2 = Some (JSON_stringify [?c])" using s2 s1 c1 by simp
  then have "persisted_records st2 = Some (concat (map (\<lambda>c. map json_of_message (messages c)) [?c]))"
    by (rule persisted_records_saved)
  then have 5: "persisted_records st
         = Some [JObject [(js ''content'', JString (js ''Explain thermodynamics'')),
                          (js ''type'', JString (js ''user'')),
                          (js ''timestamp'', JString (js ''2023-11-14T22:13:21.000Z''))],
                 JObject [(js ''content'', JString thermodynamics_response),
                          (js ''type'', JString (js ''assistant'')),
                          (js ''timestamp'', JString (js ''2023-11-14T22:13:23.000Z''))]]"
    unfolding st by (simp add: json_of_message_def)
  from 3 5 show ?thesis by blast
qed

lemma plain_with_role: "plain with_role"
  by (simp add: with_role_def is_array_index_def is_digit_def js_def)

lemma with_role_foreign:
  "conversations_of_json with_role = None" "\<not> renderConversationList_raises with_role"
  by (simp_all add: with_role_def conversations_of_json_def conversation_of_json_def
      the_string_def the_messages_def message_of_json_def
      renderConversationList_raises_def raises_on_element_def property_def js_def)

text \<open>
  The claim as stated fails: the records that a submission persists carry the field
  \<^verbatim>\<open>type\<close>, and none named \<^verbatim>\<open>role\<close>. And it holds of no more than the items the
  application has written itself: an item with a message of type \<^verbatim>\<open>system\<close> is
  loaded, and saved with that message; an item whose record names its second field
  \<^verbatim>\<open>role\<close> is loaded as it is, and the text that \<^verbatim>\<open>JSON.stringify\<close> gives of the
  loaded value reads back with that record.
\<close>
theorem persisted_field_is_type_counterexample:
  "persisted_fields asked
     = Some [[js ''content'', js ''type'', js ''timestamp''],
             [js ''content'', js ''type'', js ''timestamp'']]
   \<and> js ''role'' \<notin> set [js ''content'', js ''type'', js ''timestamp'']
   \<and> loadConversations (store_of [annotated] None) = Stored (store_of [annotated] None)
   \<and> persisted_records (saveConversations (store_of [annotated] None))
       = Some [JObject [(js ''content'', JString (js ''Be brief.'')),
                        (js ''type'', JString (js ''system'')),
                        (js ''timestamp'', JString (js ''2023-11-14T22:13:21.000Z''))]]
   \<and> js ''system'' \<noteq> js ''user'' \<and> js ''system'' \<noteq> js ''assistant''
   \<and> loadConversations (store_of [] None\<lparr>storage := Some (stringify_value with_role)\<rparr>)
       = Foreign with_role
   \<and> JSON_parse (stringify_value with_role) = Some with_role
   \<and> map field_names (persisted_messages with_role)
       = [[js ''content'', js ''role'', js ''timestamp'']]"
proof -
  have st: "storage asked = Some (JSON_stringify (conversations asked))"
    by (simp add: asked_def submit_def sendMessage_def sendMessage_begin_def
        sendMessage_resume_def Let_def store_of_def example_conversation_def
        saveMessageToConversation_def findById_def saveConversations_def
        trim_def is_trim_space_def js_def)
  have a: "persisted_fields asked
       = Some [[js ''content'', js ''type'', js ''timestamp''],
               [js ''content'', js ''type'', js ''timestamp'']]"
    by (simp add: persisted_fields_def persisted_records_def st JSON_parse_stringify
        persisted_messages_json_of_conversations conversations_asked field_names_def
        json_of_message_def)
  have b: "js ''role'' \<notin> set [js ''content'', js ''type'', js ''timestamp'']"
    by (simp add: js_def)
  have "storage (store_of [annotated] None) = Some (JSON_stringify [annotated])"
    by (simp add: store_of_def)
  then have "loadConversations (store_of [annotated] None)
      = Stored ((store_of [annotated] None)\<lparr>conversations := [annotated]\<rparr>)"
    by (rule loadConversations_saved)
  then have c: "loadConversations (store_of [annotated] None) = Stored (store_of [annotated] None)"
    by (simp add: store_of_def)
  have "storage (saveConversations (store_of [annotated] None)) = Some (JSON_stringify [annotated])"
    by (simp add: saveConversations_def store_of_def)
  then have "persisted_records (saveConversations (store_of [annotated] None))
      = Some (concat (map (\<lambda>c. map json_of_message (messages c)) [annotated]))"
    by (rule persisted_records_saved)
  then have d: "persisted_records (saveConversations (store_of [annotated] None))
       = Some [JObject [(js ''content'', JString (js ''Be brief.'')),
                        (js ''type'', JString (js ''system'')),
                        (js ''timestamp'', JString (js ''2023-11-14T22:13:21.000Z''))]]"
    by (simp add: annotated_def json_of_message_def)
  have e: "js ''system'' \<noteq> js ''user'' \<and> js ''system'' \<noteq> js ''assistant''"
    by (simp add: js_def)
  have g: "JSON_parse (stringify_value with_role) = Some with_role"
    using plain_with_role by (rule JSON_parse_stringify_value)
  have f: "loadConversations (store_of [] None\<lparr>storage := Some (stringify_value with_role)\<rparr>)
       = Foreign with_role"
    by (rule loadConversations_foreign_text [where s = "stringify_value with_role"])
      (simp_all add: g stringify_value_nonempty [OF plain_with_role] with_role_foreign)
  have h: "map field_names (persisted_messages with_role)
       = [[js ''content'', js ''role'', js ''timestamp'']]"
    by (simp add: with_role_def persisted_messages_def elements_def property_def field_names_def js_def)
  from a b c d e f g h show ?thesis by blast
qed

end
